theory Spec2Isabelle
  imports Complex_Main "HOL-Library.Word" "HOL-Library.Signed_Division"
begin

unbundle bit_operations_syntax

section \<open>Colour-space converter (VirtualCameraStreamer.cpp, anonymous namespace)\<close>

text \<open>
  The C++ types: \<open>uint8_t\<close> is an 8-bit word, \<open>int\<close> a 32-bit word read as two's
  complement (\<open>sint\<close>). The arithmetic of \<open>rgbToYuv\<close> is modelled at that width, with
  \<open>>>\<close> on \<open>int\<close> as the arithmetic shift \<open>signed_drop_bit\<close> and \<open>/\<close> as the
  truncating division of the signed values.
\<close>

type_synonym uint8 = "8 word"
type_synonym cint = "32 word"

definition cint_div :: "cint \<Rightarrow> cint \<Rightarrow> cint" where
  "cint_div a b = word_of_int (sint a sdiv sint b)"

definition clampToByte :: "cint \<Rightarrow> uint8" where
  "clampToByte v = (if v <s 0 then 0 else if 255 <s v then 255 else ucast v)"

record YuvComponents =
  yuv_y :: uint8
  yuv_u :: uint8
  yuv_v :: uint8

definition rgbToYuv :: "uint8 \<Rightarrow> uint8 \<Rightarrow> uint8 \<Rightarrow> YuvComponents" where
  "rgbToYuv r g b =
     (let R = (ucast r :: cint); G = (ucast g :: cint); B = (ucast b :: cint);
          y = signed_drop_bit 8 (66 * R + 129 * G + 25 * B + 128) + 16;
          u = signed_drop_bit 8 (- 38 * R - 74 * G + 112 * B + 128) + 128;
          v = signed_drop_bit 8 (112 * R - 94 * G - 18 * B + 128) + 128
      in \<lparr>yuv_y = clampToByte y, yuv_u = clampToByte u, yuv_v = clampToByte v\<rparr>)"

text \<open>
  The converter's sizes, counters and offsets are C++ \<open>int\<close>s. They are integers
  here, and the result of every product and sum the converter takes of them is
  reduced to 32 bits in two's complement by \<open>i32\<close>, the wrap-around written out:
  \<open>width * height * 2\<close>, \<open>y * width * 2\<close>, \<open>x * 3\<close>, \<open>(x + 1) * 3\<close> and
  \<open>(x * 2) + k\<close>. The increments of the loop counters are taken as they are:
  \<open>x += 2\<close> is computed only where \<open>x + 1 < width\<close> and \<open>++y\<close> only where
  \<open>y < height\<close>, so that \<open>x\<close> never exceeds the width, \<open>y\<close> never the height,
  and \<open>x + 1\<close> never the largest \<open>int\<close>. Adding an offset to a pointer does not
  wrap.
\<close>

definition i32 :: "int \<Rightarrow> int" where
  "i32 k = (k + 2147483648) mod 4294967296 - 2147483648"

text \<open>
  A \<open>QImage\<close> in format RGB888, as the converter reads it: its width, its height and
  \<open>constScanLine(y)\<close>, a pointer read at byte offsets.
\<close>

record QImage =
  img_width :: int
  img_height :: int
  img_scanLine :: "int \<Rightarrow> int \<Rightarrow> uint8"

text \<open>
  A \<open>QByteArray\<close>: its size and the memory its \<open>data()\<close> pointer addresses, by byte
  offset. The array's contents are the offsets \<open>0 .. size - 1\<close>; an offset at or
  beyond \<open>size\<close> is memory behind the array, which a write through the raw pointer
  reaches all the same.
\<close>

record QByteArray =
  ba_size :: int
  ba_data :: "int \<Rightarrow> uint8"

definition ba_bytes :: "QByteArray \<Rightarrow> uint8 list" where
  "ba_bytes b = map (ba_data b) [0 .. ba_size b - 1]"

text \<open>\<open>QByteArray::resize\<close>, which takes a negative size for 0.\<close>

definition ba_resize :: "int \<Rightarrow> QByteArray \<Rightarrow> QByteArray" where
  "ba_resize n b = b\<lparr>ba_size := (if n < 0 then 0 else n)\<rparr>"

text \<open>The inner loop \<open>for (; x + 1 < width; x += 2)\<close>; it returns the final \<open>x\<close>.\<close>

function convertPairs ::
  "int \<Rightarrow> (int \<Rightarrow> uint8) \<Rightarrow> int \<Rightarrow> int \<Rightarrow> (int \<Rightarrow> uint8) \<Rightarrow> int \<times> (int \<Rightarrow> uint8)" where
  "convertPairs width src rowPtr x dst =
     (if x + 1 < width then
        (let p0 = i32 (x * 3);
             p1 = i32 ((x + 1) * 3);
             yuv0 = rgbToYuv (src p0) (src (p0 + 1)) (src (p0 + 2));
             yuv1 = rgbToYuv (src p1) (src (p1 + 1)) (src (p1 + 2));
             u = clampToByte (cint_div (ucast (yuv_u yuv0) + ucast (yuv_u yuv1)) 2);
             v = clampToByte (cint_div (ucast (yuv_v yuv0) + ucast (yuv_v yuv1)) 2)
         in convertPairs width src rowPtr (x + 2)
              (dst(rowPtr + i32 (i32 (x * 2) + 0) := yuv_y yuv0,
                   rowPtr + i32 (i32 (x * 2) + 1) := u,
                   rowPtr + i32 (i32 (x * 2) + 2) := yuv_y yuv1,
                   rowPtr + i32 (i32 (x * 2) + 3) := v)))
      else (x, dst))"
  by pat_completeness auto
termination
  by (relation "measure (\<lambda>(width, src, rowPtr, x, dst). nat (width - x))") auto

declare convertPairs.simps [simp del]

text \<open>The body of the outer loop for one scan line: the pairs, then \<open>if (x < width)\<close>.\<close>

definition convertRow :: "int \<Rightarrow> (int \<Rightarrow> uint8) \<Rightarrow> int \<Rightarrow> (int \<Rightarrow> uint8) \<Rightarrow> (int \<Rightarrow> uint8)" where
  "convertRow width src rowPtr dst =
     (case convertPairs width src rowPtr 0 dst of (x, dst1) \<Rightarrow>
        if x < width then
          (let p0 = i32 (x * 3);
               yuv0 = rgbToYuv (src p0) (src (p0 + 1)) (src (p0 + 2))
           in dst1(rowPtr + i32 (i32 (x * 2) + 0) := yuv_y yuv0,
                   rowPtr + i32 (i32 (x * 2) + 1) := yuv_u yuv0,
                   rowPtr + i32 (i32 (x * 2) + 2) := yuv_y yuv0,
                   rowPtr + i32 (i32 (x * 2) + 3) := yuv_v yuv0))
        else dst1)"

text \<open>The outer loop \<open>for (int y = 0; y < height; ++y)\<close>, from row \<open>y\<close> on.\<close>

function convertRows :: "QImage \<Rightarrow> int \<Rightarrow> (int \<Rightarrow> uint8) \<Rightarrow> (int \<Rightarrow> uint8)" where
  "convertRows img y dst =
     (if y < img_height img then
        convertRows img (y + 1)
          (convertRow (img_width img) (img_scanLine img y)
             (i32 (i32 (y * img_width img) * 2)) dst)
      else dst)"
  by pat_completeness auto
termination
  by (relation "measure (\<lambda>(img, y, dst). nat (img_height img - y))") auto

declare convertRows.simps [simp del]

definition convertRgbToYuyv :: "QImage \<Rightarrow> QByteArray \<Rightarrow> bool \<times> QByteArray" where
  "convertRgbToYuyv img outBuffer =
     (let width = img_width img; height = img_height img
      in if width \<le> 0 \<or> height \<le> 0 then (False, outBuffer)
         else (let resized = ba_resize (i32 (i32 (width * height) * 2)) outBuffer
               in (True, resized\<lparr>ba_data := convertRows img 0 (ba_data resized)\<rparr>)))"

subsection \<open>The conversion formulas as the specification writes them\<close>

text \<open>
  The specification's \<open>clampByte\<close> and its three formulas, over the integers
  (\<open>>> 8\<close> is \<open>drop_bit 8\<close>, the floor of the division by 256).
\<close>

definition clampByte :: "int \<Rightarrow> int" where
  "clampByte k = (if k < 0 then 0 else if 255 < k then 255 else k)"

definition spec_Y :: "int \<Rightarrow> int \<Rightarrow> int \<Rightarrow> int" where
  "spec_Y R G B = clampByte (drop_bit 8 (66 * R + 129 * G + 25 * B + 128) + 16)"

definition spec_U :: "int \<Rightarrow> int \<Rightarrow> int \<Rightarrow> int" where
  "spec_U R G B = clampByte (drop_bit 8 (- 38 * R - 74 * G + 112 * B + 128) + 128)"

definition spec_V :: "int \<Rightarrow> int \<Rightarrow> int \<Rightarrow> int" where
  "spec_V R G B = clampByte (drop_bit 8 (112 * R - 94 * G - 18 * B + 128) + 128)"

text \<open>A 4 by 2 frame whose every pixel is (255, 0, 0), and a fresh empty array.\<close>

definition solidRed4x2 :: QImage where
  "solidRed4x2 =
     \<lparr>img_width = 4, img_height = 2,
      img_scanLine = (\<lambda>y i. if i mod 3 = 0 then 255 else 0)\<rparr>"

definition emptyBuffer :: QByteArray where
  "emptyBuffer = \<lparr>ba_size = 0, ba_data = (\<lambda>i. 0)\<rparr>"

text \<open>
  Two abbreviations for stating what the loops write: the components of the pixel in
  column \<open>x\<close> of a scan line, and the chroma byte
  \<open>clampToByte((int(a) + int(b)) / 2)\<close> of a pair.
\<close>

definition pixelYuv :: "(int \<Rightarrow> uint8) \<Rightarrow> int \<Rightarrow> YuvComponents" where
  "pixelYuv src x = rgbToYuv (src (x * 3)) (src (x * 3 + 1)) (src (x * 3 + 2))"

definition avgByte :: "uint8 \<Rightarrow> uint8 \<Rightarrow> uint8" where
  "avgByte a b = clampToByte (cint_div (ucast a + ucast b) 2)"

text \<open>Example frames, given by their scan lines.\<close>

definition imageOfRows :: "int \<Rightarrow> int \<Rightarrow> uint8 list list \<Rightarrow> QImage" where
  "imageOfRows w h rows =
     \<lparr>img_width = w, img_height = h, img_scanLine = (\<lambda>y i. rows ! nat y ! nat i)\<rparr>"

definition rgb3x2 :: QImage where
  "rgb3x2 = imageOfRows 3 2 [[255, 0, 0,  0, 255, 0,  0, 0, 255],
                             [0, 0, 255,  255, 0, 0,  0, 255, 0]]"

definition redGreen1x2 :: QImage where
  "redGreen1x2 = imageOfRows 1 2 [[255, 0, 0], [0, 255, 0]]"

definition red1x1 :: QImage where
  "red1x1 = imageOfRows 1 1 [[255, 0, 0]]"

text \<open>A black frame of 32768 by 32768 pixels, and the largest \<open>int\<close>.\<close>

definition black32768 :: QImage where
  "black32768 = \<lparr>img_width = 32768, img_height = 32768, img_scanLine = (\<lambda>y i. 0)\<rparr>"

definition INT_MAX :: int where
  "INT_MAX = 2147483647"

section \<open>Virtual camera device session (VirtualCameraStreamer.cpp)\<close>

text \<open>
  The system calls the streamer makes are logged in order, each with the answer it got.
  The kernel is a parameter: its answer to a call is a function of the calls made so
  far, so any pattern of failures can be scripted. \<open>SysOpen\<close> carries the path and the
  returned descriptor (\<open>-1\<close> on failure), \<open>SysIoctl\<close> the descriptor, the requested
  width and height and the result of \<open>VIDIOC_S_FMT\<close> (\<open>-1\<close> on failure),
  \<open>SysWrite\<close> the descriptor, the bytes handed to \<open>::write\<close> and the count written.
\<close>

datatype syscall =
    SysOpen string int
  | SysClose int
  | SysIoctl int int int int
  | SysWrite int "uint8 list" int

record kernel =
  k_open :: "syscall list \<Rightarrow> int"
  k_ioctl :: "syscall list \<Rightarrow> int"
  k_write :: "syscall list \<Rightarrow> int"

datatype stream_error = CannotOpenDevice | ConfigureFormatFailed | ConversionFailed | WriteFailed

record VirtualCameraStreamer =
  m_fd :: int
  m_devicePath :: string
  m_enabled :: bool
  m_deviceConfigured :: bool
  m_frameWidth :: int
  m_frameHeight :: int
  errorOccurred :: "stream_error list"
  syscalls :: "syscall list"

definition kDefaultDevicePath :: string where
  "kDefaultDevicePath = ''/dev/video42''"

text \<open>The constructor.\<close>

definition newStreamer :: VirtualCameraStreamer where
  "newStreamer =
     \<lparr>m_fd = - 1, m_devicePath = kDefaultDevicePath, m_enabled = False,
      m_deviceConfigured = False, m_frameWidth = 0, m_frameHeight = 0,
      errorOccurred = [], syscalls = []\<rparr>"

definition closeDevice :: "VirtualCameraStreamer \<Rightarrow> VirtualCameraStreamer" where
  "closeDevice s =
     (let s1 = (if m_fd s \<noteq> - 1
                then s\<lparr>syscalls := syscalls s @ [SysClose (m_fd s)], m_fd := - 1\<rparr>
                else s)
      in s1\<lparr>m_deviceConfigured := False, m_frameWidth := 0, m_frameHeight := 0\<rparr>)"

definition setEnabled :: "bool \<Rightarrow> VirtualCameraStreamer \<Rightarrow> VirtualCameraStreamer" where
  "setEnabled enabled s =
     (if m_enabled s = enabled then s
      else (let s1 = s\<lparr>m_enabled := enabled\<rparr>
            in if \<not> m_enabled s1 then closeDevice s1 else s1))"

definition configureFormat ::
  "kernel \<Rightarrow> int \<Rightarrow> int \<Rightarrow> VirtualCameraStreamer \<Rightarrow> bool \<times> VirtualCameraStreamer" where
  "configureFormat os width height s =
     (if m_fd s = - 1 then (False, s)
      else (let r = k_ioctl os (syscalls s);
                s1 = s\<lparr>syscalls := syscalls s @ [SysIoctl (m_fd s) width height r]\<rparr>
            in if r = - 1
               then (False, s1\<lparr>errorOccurred := errorOccurred s1 @ [ConfigureFormatFailed]\<rparr>)
               else (True, s1)))"

text \<open>\<open>::open(m_devicePath, O_WRONLY)\<close> with the assignment to \<open>m_fd\<close>.\<close>

definition sys_open :: "kernel \<Rightarrow> VirtualCameraStreamer \<Rightarrow> VirtualCameraStreamer" where
  "sys_open os s =
     (let fd = k_open os (syscalls s)
      in s\<lparr>m_fd := fd, syscalls := syscalls s @ [SysOpen (m_devicePath s) fd]\<rparr>)"

definition openFailed :: "VirtualCameraStreamer \<Rightarrow> VirtualCameraStreamer" where
  "openFailed s = s\<lparr>errorOccurred := errorOccurred s @ [CannotOpenDevice], m_enabled := False\<rparr>"

definition openDevice ::
  "kernel \<Rightarrow> int \<Rightarrow> int \<Rightarrow> VirtualCameraStreamer \<Rightarrow> bool \<times> VirtualCameraStreamer" where
  "openDevice os width height s =
     (let s1 = (if m_fd s = - 1 then sys_open os s else s)
      in if m_fd s = - 1 \<and> m_fd s1 = - 1 then (False, openFailed s1)
         else
          (let s2 = (if m_fd s = - 1 then s1\<lparr>m_deviceConfigured := False\<rparr> else s1)
           in if \<not> m_deviceConfigured s2 \<or> width \<noteq> m_frameWidth s2 \<or> height \<noteq> m_frameHeight s2
              then
               (let reopen = (width \<noteq> m_frameWidth s2 \<or> height \<noteq> m_frameHeight s2);
                    s3 = (if reopen then sys_open os (closeDevice s2) else s2)
                in if reopen \<and> m_fd s3 = - 1 then (False, openFailed s3)
                   else
                    (case configureFormat os width height s3 of
                       (False, s4) \<Rightarrow> (False, (closeDevice s4)\<lparr>m_enabled := False\<rparr>)
                     | (True, s4) \<Rightarrow>
                         (True, s4\<lparr>m_deviceConfigured := True, m_frameWidth := width,
                                   m_frameHeight := height\<rparr>)))
              else (True, s2)))"

definition writeFrame ::
  "kernel \<Rightarrow> QImage \<Rightarrow> VirtualCameraStreamer \<Rightarrow> bool \<times> VirtualCameraStreamer" where
  "writeFrame os img s =
     (if m_fd s = - 1 then (False, s)
      else
       (case convertRgbToYuyv img emptyBuffer of
          (False, buffer) \<Rightarrow>
            (False, s\<lparr>errorOccurred := errorOccurred s @ [ConversionFailed]\<rparr>)
        | (True, buffer) \<Rightarrow>
            (let frameSize = ba_size buffer;
                 written = k_write os (syscalls s);
                 s1 = s\<lparr>syscalls := syscalls s @ [SysWrite (m_fd s) (ba_bytes buffer) written]\<rparr>
             in if written \<noteq> frameSize
                then (False, s1\<lparr>errorOccurred := errorOccurred s1 @ [WriteFailed]\<rparr>)
                else (True, s1))))"

text \<open>
  \<open>onProcessedFrameReady\<close>, from its two guards to the device: the argument is the
  frame as line 221 finds it, an RGB888 image of the target size (lines 171 to 219,
  Qt's format conversion and the scaling to a forced resolution, produce it and touch
  no member). A null \<open>QImage\<close> is one without pixels.
\<close>

definition isNull :: "QImage \<Rightarrow> bool" where
  "isNull img = (img_width img \<le> 0 \<or> img_height img \<le> 0)"

definition onProcessedFrameReady ::
  "kernel \<Rightarrow> QImage \<Rightarrow> VirtualCameraStreamer \<Rightarrow> VirtualCameraStreamer" where
  "onProcessedFrameReady os frame s =
     (if \<not> m_enabled s then s
      else if isNull frame then s
      else
       (let width = img_width frame; height = img_height frame
        in case openDevice os width height s of
             (False, s1) \<Rightarrow> s1
           | (True, s1) \<Rightarrow>
               (case writeFrame os frame s1 of
                  (False, s2) \<Rightarrow> closeDevice s2
                | (True, s2) \<Rightarrow> s2)))"

text \<open>Counting the calls of one kind in a stretch of the log.\<close>

fun is_open :: "syscall \<Rightarrow> bool" where
  "is_open (SysOpen p fd) = True"
| "is_open c = False"

fun is_ioctl :: "syscall \<Rightarrow> bool" where
  "is_ioctl (SysIoctl fd w h r) = True"
| "is_ioctl c = False"

definition count_opens :: "syscall list \<Rightarrow> nat" where
  "count_opens cs = length (filter is_open cs)"

definition count_ioctls :: "syscall list \<Rightarrow> nat" where
  "count_ioctls cs = length (filter is_ioctl cs)"

text \<open>
  A scripted run: every \<open>::open\<close> succeeds (descriptors 3, 4, ... in the order of the
  log), every \<open>ioctl\<close> succeeds, and of the writes the second stops after 5 bytes
  while the others take all 16. The streamer is enabled and receives the solid red
  frame three times.
\<close>

fun is_write :: "syscall \<Rightarrow> bool" where
  "is_write (SysWrite fd bs n) = True"
| "is_write c = False"

definition count_writes :: "syscall list \<Rightarrow> nat" where
  "count_writes cs = length (filter is_write cs)"

definition secondWriteShort :: kernel where
  "secondWriteShort =
     \<lparr>k_open = (\<lambda>cs. 3 + int (count_opens cs)),
      k_ioctl = (\<lambda>cs. 0),
      k_write = (\<lambda>cs. if count_writes cs = 1 then 5 else 16)\<rparr>"

definition afterFirstFrame :: VirtualCameraStreamer where
  "afterFirstFrame = onProcessedFrameReady secondWriteShort solidRed4x2 (setEnabled True newStreamer)"

definition afterShortWrite :: VirtualCameraStreamer where
  "afterShortWrite = onProcessedFrameReady secondWriteShort solidRed4x2 afterFirstFrame"

text \<open>The packed bytes of the solid red frame.\<close>

definition redYuyv :: QByteArray where
  "redYuyv = snd (convertRgbToYuyv solidRed4x2 emptyBuffer)"

section \<open>Preview widget (FilterPreviewWidget.cpp)\<close>

text \<open>
  The widget's members that the paint cycle reads and writes. The GL objects are kept
  by what the code asks of them: \<open>m_program\<close> is whether the pointer is set,
  \<open>m_texture\<close> is the image last uploaded into the texture (\<open>None\<close> for a null
  pointer), \<open>m_framebuffer\<close> is the size of the offscreen target (\<open>None\<close> for a null
  pointer). The signal \<open>processedFrameReady\<close> is the list of its emissions; an
  emission is recorded by what determines the pixels read back: the texture's image
  and the filter uniforms of that render pass.
\<close>

datatype FilterType = FilterNone | Grayscale | Sepia | Invert | Warm | Cool

type_synonym QSize = "int \<times> int"

definition isEmpty :: "QSize \<Rightarrow> bool" where
  "isEmpty sz = (fst sz \<le> 0 \<or> snd sz \<le> 0)"

definition img_size :: "QImage \<Rightarrow> QSize" where
  "img_size img = (img_width img, img_height img)"

record ProcessedFrame =
  pf_source :: QImage
  pf_filter :: FilterType
  pf_strength :: real

record FilterPreviewWidget =
  m_currentImage :: QImage
  m_textureDirty :: bool
  m_emitPending :: bool
  m_filterType :: FilterType
  m_filterStrength :: real
  m_program :: bool
  m_texture :: "QImage option"
  m_framebuffer :: "QSize option"
  m_geometryInitialized :: bool
  processedFrameReady :: "ProcessedFrame list"

definition nullImage :: QImage where
  "nullImage = \<lparr>img_width = 0, img_height = 0, img_scanLine = (\<lambda>y i. 0)\<rparr>"

text \<open>The constructor.\<close>

definition newWidget :: FilterPreviewWidget where
  "newWidget =
     \<lparr>m_currentImage = nullImage, m_textureDirty = False, m_emitPending = False,
      m_filterType = FilterNone, m_filterStrength = 1, m_program = False,
      m_texture = None, m_framebuffer = None, m_geometryInitialized = False,
      processedFrameReady = []\<rparr>"

definition setFilter :: "FilterType \<Rightarrow> FilterPreviewWidget \<Rightarrow> FilterPreviewWidget" where
  "setFilter type s = (if m_filterType s = type then s else s\<lparr>m_filterType := type\<rparr>)"

text \<open>
  Qt's \<open>qBound(min, val, max)\<close> and its \<open>qFuzzyCompare\<close> for \<open>float\<close>, over the
  reals: \<open>qAbs(p1 - p2) * 100000.f <= qMin(qAbs(p1), qAbs(p2))\<close>.
\<close>

definition qBound :: "real \<Rightarrow> real \<Rightarrow> real \<Rightarrow> real" where
  "qBound lo val hi = max lo (min hi val)"

definition qFuzzyCompare :: "real \<Rightarrow> real \<Rightarrow> bool" where
  "qFuzzyCompare p1 p2 = (\<bar>p1 - p2\<bar> * 100000 \<le> min \<bar>p1\<bar> \<bar>p2\<bar>)"

definition setFilterStrength :: "real \<Rightarrow> FilterPreviewWidget \<Rightarrow> FilterPreviewWidget" where
  "setFilterStrength strength s =
     (let clamped = qBound 0 strength 1
      in if qFuzzyCompare clamped (m_filterStrength s) then s
         else s\<lparr>m_filterStrength := clamped\<rparr>)"

text \<open>
  \<open>updateVideoFrame\<close>: the argument is \<open>None\<close> for a \<open>QVideoFrame\<close> that is not
  valid, otherwise the image \<open>toImage()\<close> gives, in format RGBA8888.
\<close>

definition updateVideoFrame :: "QImage option \<Rightarrow> FilterPreviewWidget \<Rightarrow> FilterPreviewWidget" where
  "updateVideoFrame frame s =
     (case frame of
        None \<Rightarrow> s
      | Some img \<Rightarrow>
          if isNull img then s
          else s\<lparr>m_currentImage := img, m_textureDirty := True, m_emitPending := True\<rparr>)"

definition cleanupGLResources :: "FilterPreviewWidget \<Rightarrow> FilterPreviewWidget" where
  "cleanupGLResources s =
     s\<lparr>m_texture := None, m_framebuffer := None, m_program := False,
       m_geometryInitialized := False\<rparr>"

text \<open>\<open>ensureProgram\<close>; \<open>link_ok\<close> is what \<open>m_program->link()\<close> returns if it is called.\<close>

definition ensureProgram :: "bool \<Rightarrow> FilterPreviewWidget \<Rightarrow> FilterPreviewWidget" where
  "ensureProgram link_ok s =
     (if m_program s then s
      else if \<not> link_ok then s\<lparr>m_program := False\<rparr>
      else s\<lparr>m_program := True\<rparr>)"

definition ensureGeometry :: "FilterPreviewWidget \<Rightarrow> FilterPreviewWidget" where
  "ensureGeometry s =
     (if m_geometryInitialized s then s else s\<lparr>m_geometryInitialized := True\<rparr>)"

text \<open>
  \<open>ensureFramebuffer\<close>; \<open>fbo_ok\<close> is what \<open>isValid()\<close> returns for a framebuffer object
  it creates.
\<close>

definition ensureFramebuffer :: "QSize \<Rightarrow> bool \<Rightarrow> FilterPreviewWidget \<Rightarrow> FilterPreviewWidget" where
  "ensureFramebuffer sz fbo_ok s =
     (if isEmpty sz then s\<lparr>m_framebuffer := None\<rparr>
      else if m_framebuffer s = Some sz then s
      else if \<not> fbo_ok then s\<lparr>m_framebuffer := None\<rparr>
      else s\<lparr>m_framebuffer := Some sz\<rparr>)"

definition uploadTextureIfNeeded :: "FilterPreviewWidget \<Rightarrow> FilterPreviewWidget" where
  "uploadTextureIfNeeded s =
     (if \<not> m_textureDirty s \<or> isNull (m_currentImage s) then s
      else s\<lparr>m_texture := Some (m_currentImage s), m_textureDirty := False\<rparr>)"

definition initializeGL :: "bool \<Rightarrow> FilterPreviewWidget \<Rightarrow> FilterPreviewWidget" where
  "initializeGL link_ok s = ensureGeometry (ensureProgram link_ok (cleanupGLResources s))"

definition handleContextAboutToBeDestroyed :: "bool \<Rightarrow> FilterPreviewWidget \<Rightarrow> FilterPreviewWidget" where
  "handleContextAboutToBeDestroyed valid s = (if \<not> valid then s else cleanupGLResources s)"

text \<open>
  \<open>paintGL\<close>. The two calls of \<open>renderToCurrentTarget\<close> draw and change no member;
  the one into the framebuffer is followed by the read-back and the emission.
\<close>

definition paintGL :: "bool \<Rightarrow> bool \<Rightarrow> FilterPreviewWidget \<Rightarrow> FilterPreviewWidget" where
  "paintGL link_ok fbo_ok s =
     (if isNull (m_currentImage s) then s
      else
       (let s1 = uploadTextureIfNeeded (ensureGeometry (ensureProgram link_ok s))
        in case m_texture s1 of
             None \<Rightarrow> s1
           | Some tex \<Rightarrow>
               if \<not> m_program s1 then s1
               else
                (let frameSize = img_size (m_currentImage s1);
                     s2 = ensureFramebuffer frameSize fbo_ok s1
                 in if m_emitPending s2 \<and> m_framebuffer s2 \<noteq> None
                    then s2\<lparr>processedFrameReady := processedFrameReady s2 @
                                [\<lparr>pf_source = tex, pf_filter = m_filterType s2,
                                  pf_strength = m_filterStrength s2\<rparr>],
                            m_emitPending := False\<rparr>
                    else s2)))"

text \<open>What can happen to the widget, and a run of such events.\<close>

datatype widget_event =
    UpdateVideoFrame "QImage option"
  | PaintGL bool bool
  | SetFilter FilterType
  | SetFilterStrength real
  | InitializeGL bool
  | ContextAboutToBeDestroyed bool

fun step :: "widget_event \<Rightarrow> FilterPreviewWidget \<Rightarrow> FilterPreviewWidget" where
  "step (UpdateVideoFrame frame) s = updateVideoFrame frame s"
| "step (PaintGL link_ok fbo_ok) s = paintGL link_ok fbo_ok s"
| "step (SetFilter type) s = setFilter type s"
| "step (SetFilterStrength strength) s = setFilterStrength strength s"
| "step (InitializeGL link_ok) s = initializeGL link_ok s"
| "step (ContextAboutToBeDestroyed valid) s = handleContextAboutToBeDestroyed valid s"

fun run :: "widget_event list \<Rightarrow> FilterPreviewWidget \<Rightarrow> FilterPreviewWidget" where
  "run [] s = s"
| "run (e # es) s = run es (step e s)"

text \<open>
  One input frame with the paint passes that follow it before the next frame arrives,
  each pass with its two GL outcomes; and "every frame is fully processed before the
  next arrives": at the end of each block the pending emission has been done.
\<close>

definition frameBlock :: "QImage \<times> (bool \<times> bool) list \<Rightarrow> widget_event list" where
  "frameBlock b = UpdateVideoFrame (Some (fst b)) # map (\<lambda>p. PaintGL (fst p) (snd p)) (snd b)"

fun processedEach :: "(QImage \<times> (bool \<times> bool) list) list \<Rightarrow> FilterPreviewWidget \<Rightarrow> bool" where
  "processedEach [] s = True"
| "processedEach (b # bs) s =
     (\<not> isNull (fst b) \<and> \<not> m_emitPending (run (frameBlock b) s)
      \<and> processedEach bs (run (frameBlock b) s))"

text \<open>
  The paint passes of a block as events; and "the texture holds, or is about to be
  given, the frame \<open>f\<close>".
\<close>

definition paints :: "(bool \<times> bool) list \<Rightarrow> widget_event list" where
  "paints ps = map (\<lambda>p. PaintGL (fst p) (snd p)) ps"

definition uploaded :: "QImage \<Rightarrow> FilterPreviewWidget \<Rightarrow> bool" where
  "uploaded f s = (m_textureDirty s \<or> m_texture s = Some f)"

text \<open>
  Two frames, each followed by paint passes of which some fail to link the program or
  to create the framebuffer, and some are plain repaints.
\<close>

definition twoFrames :: "(QImage \<times> (bool \<times> bool) list) list" where
  "twoFrames =
     [(solidRed4x2, [(False, True), (True, False), (True, True), (True, True)]),
      (rgb3x2, [(True, True), (False, False), (False, False)])]"

section \<open>Shader compositor (FilterPreviewWidget.cpp, shader sources and uniforms)\<close>

text \<open>
  The shaders compute in floating point; here their arithmetic is over the reals, so
  rounding is left out. GLSL's \<open>dot\<close>, \<open>clamp\<close> and \<open>mix\<close> are as the GLSL
  specification defines them.
\<close>

datatype vec2 = Vec2 real real
datatype vec3 = Vec3 real real real
datatype vec4 = Vec4 real real real real

fun dot :: "vec3 \<Rightarrow> vec3 \<Rightarrow> real" where
  "dot (Vec3 a b c) (Vec3 d e f) = a * d + b * e + c * f"

definition clampf :: "real \<Rightarrow> real \<Rightarrow> real \<Rightarrow> real" where
  "clampf x lo hi = min (max x lo) hi"

fun clamp3 :: "vec3 \<Rightarrow> real \<Rightarrow> real \<Rightarrow> vec3" where
  "clamp3 (Vec3 a b c) lo hi = Vec3 (clampf a lo hi) (clampf b lo hi) (clampf c lo hi)"

definition mixf :: "real \<Rightarrow> real \<Rightarrow> real \<Rightarrow> real" where
  "mixf x y a = x * (1 - a) + y * a"

fun mix3 :: "vec3 \<Rightarrow> vec3 \<Rightarrow> real \<Rightarrow> vec3" where
  "mix3 (Vec3 a b c) (Vec3 d e f) t = Vec3 (mixf a d t) (mixf b e t) (mixf c f t)"

fun add3 :: "vec3 \<Rightarrow> vec3 \<Rightarrow> vec3" where
  "add3 (Vec3 a b c) (Vec3 d e f) = Vec3 (a + d) (b + e) (c + f)"

fun sub3 :: "vec3 \<Rightarrow> vec3 \<Rightarrow> vec3" where
  "sub3 (Vec3 a b c) (Vec3 d e f) = Vec3 (a - d) (b - e) (c - f)"

definition toGrayscale :: "vec3 \<Rightarrow> vec3" where
  "toGrayscale color = (let gray = dot color (Vec3 0.299 0.587 0.114) in Vec3 gray gray gray)"

definition toSepia :: "vec3 \<Rightarrow> vec3" where
  "toSepia color =
     (let r = dot color (Vec3 0.393 0.769 0.189);
          g = dot color (Vec3 0.349 0.686 0.168);
          b = dot color (Vec3 0.272 0.534 0.131)
      in Vec3 r g b)"

definition toWarm :: "vec3 \<Rightarrow> vec3" where
  "toWarm color = add3 color (Vec3 0.05 0.03 (- 0.02))"

definition toCool :: "vec3 \<Rightarrow> vec3" where
  "toCool color = add3 color (Vec3 (- 0.02) 0.03 0.05)"

text \<open>
  The fragment shader's \<open>main\<close>, from the sampled texel \<open>src\<close> on; and the vertex
  shader's \<open>main\<close>, the position it gives to \<open>gl_Position\<close>.
\<close>

fun fragmentMain :: "int \<Rightarrow> real \<Rightarrow> vec4 \<Rightarrow> vec4" where
  "fragmentMain u_filter u_strength (Vec4 r g b a) =
     (let color = Vec3 r g b;
          target =
            (if u_filter = 1 then toGrayscale color
             else if u_filter = 2 then toSepia color
             else if u_filter = 3 then sub3 (Vec3 1 1 1) color
             else if u_filter = 4 then toWarm color
             else if u_filter = 5 then toCool color
             else color)
      in case mix3 color (clamp3 target 0 1) (clampf u_strength 0 1) of
           Vec3 r' g' b' \<Rightarrow> Vec4 r' g' b' a)"

fun vertexMain :: "vec2 \<Rightarrow> vec2 \<Rightarrow> vec2" where
  "vertexMain (Vec2 sx sy) (Vec2 px py) = Vec2 (px / sx) (py / sy)"

text \<open>\<open>static_cast<int>(m_filterType)\<close>, the value of the uniform \<open>u_filter\<close>.\<close>

fun filterIndex :: "FilterType \<Rightarrow> int" where
  "filterIndex FilterNone = 0"
| "filterIndex Grayscale = 1"
| "filterIndex Sepia = 2"
| "filterIndex Invert = 3"
| "filterIndex Warm = 4"
| "filterIndex Cool = 5"

text \<open>
  \<open>frameAspectSize\<close>, and the value \<open>renderToCurrentTarget\<close> gives the uniform
  \<open>u_scale\<close> (lines 340 to 351) for a frame size and a target size.
\<close>

definition frameAspectSize :: "FilterPreviewWidget \<Rightarrow> real \<times> real" where
  "frameAspectSize s =
     (if isNull (m_currentImage s) then (16, 9)
      else (real_of_int (img_width (m_currentImage s)), real_of_int (img_height (m_currentImage s))))"

definition aspectFitScale :: "real \<times> real \<Rightarrow> QSize \<Rightarrow> vec2" where
  "aspectFitScale frameSize targetSize =
     (let frameAspect = fst frameSize / snd frameSize;
          targetAspect = real_of_int (fst targetSize) / real_of_int (snd targetSize)
      in if frameAspect > targetAspect then Vec2 1 (frameAspect / targetAspect)
         else Vec2 (targetAspect / frameAspect) 1)"

definition renderScale :: "FilterPreviewWidget \<Rightarrow> QSize \<Rightarrow> vec2" where
  "renderScale s targetSize = aspectFitScale (frameAspectSize s) targetSize"

text \<open>
  The filter table as the specification lists it, by kind, and its final colour.
\<close>

fun spec_target :: "FilterType \<Rightarrow> vec3 \<Rightarrow> vec3" where
  "spec_target FilterNone (Vec3 r g b) = Vec3 r g b"
| "spec_target Grayscale (Vec3 r g b) =
     Vec3 (0.299 * r + 0.587 * g + 0.114 * b) (0.299 * r + 0.587 * g + 0.114 * b)
          (0.299 * r + 0.587 * g + 0.114 * b)"
| "spec_target Sepia (Vec3 r g b) =
     Vec3 (0.393 * r + 0.769 * g + 0.189 * b) (0.349 * r + 0.686 * g + 0.168 * b)
          (0.272 * r + 0.534 * g + 0.131 * b)"
| "spec_target Invert (Vec3 r g b) = Vec3 (1 - r) (1 - g) (1 - b)"
| "spec_target Warm (Vec3 r g b) = Vec3 (r + 0.05) (g + 0.03) (b - 0.02)"
| "spec_target Cool (Vec3 r g b) = Vec3 (r - 0.02) (g + 0.03) (b + 0.05)"

fun alpha :: "vec4 \<Rightarrow> real" where
  "alpha (Vec4 r g b a) = a"

fun spec_final :: "FilterType \<Rightarrow> real \<Rightarrow> vec4 \<Rightarrow> vec4" where
  "spec_final k strength (Vec4 r g b a) =
     (case mix3 (Vec3 r g b) (clamp3 (spec_target k (Vec3 r g b)) 0 1) (clampf strength 0 1) of
        Vec3 r' g' b' \<Rightarrow> Vec4 r' g' b' a)"

section \<open>Word arithmetic of the converter\<close>

lemma sint_cint_of_int:
  assumes "- 2147483648 \<le> k" "k < 2147483648"
  shows "sint (word_of_int k :: cint) = k"
  using assms by (simp add: sint_sbintrunc' signed_take_bit_int_eq_self)

lemma uint8_range: "0 \<le> uint (r::uint8) \<and> uint r \<le> 255"
  using uint_bounded [of r] by simp

lemma uint_clampToByte:
  assumes "- 2147483648 \<le> k" "k < 2147483648"
  shows "uint (clampToByte (word_of_int k)) = clampByte k"
proof -
  have s: "sint (word_of_int k :: cint) = k"
    using assms by (rule sint_cint_of_int)
  show ?thesis
  proof (cases "k < 0 \<or> 255 < k")
    case True
    then show ?thesis
      using s by (auto simp: clampToByte_def clampByte_def word_sless_alt)
  next
    case False
    then have "uint (ucast (word_of_int k :: cint) :: uint8) = k"
      by (simp add: uint_word_of_int take_bit_eq_mod unsigned_ucast_eq)
    with False s show ?thesis
      by (auto simp: clampToByte_def clampByte_def word_sless_alt)
  qed
qed

lemma shift_add_cint:
  assumes "- 2147483648 \<le> k" "k < 2147483648"
  shows "signed_drop_bit 8 (word_of_int k :: cint) + word_of_int c
         = word_of_int (drop_bit 8 k + c)"
proof -
  have "sint (signed_drop_bit 8 (word_of_int k :: cint)) = drop_bit 8 k"
    using assms by (simp only: sint_signed_drop_bit_eq sint_cint_of_int)
  then have "sint (signed_drop_bit 8 (word_of_int k :: cint))
             = sint (word_of_int (drop_bit 8 k) :: cint)"
    using assms by (simp add: sint_cint_of_int drop_bit_eq_div)
  then have "signed_drop_bit 8 (word_of_int k :: cint) = word_of_int (drop_bit 8 k)"
    by (rule signed_word_eqI)
  then show ?thesis by simp
qed

lemma drop_bit_8_bounds:
  assumes "- 2147483648 \<le> (k::int)" "k < 2147483648"
  shows "- 8388608 \<le> drop_bit 8 k" "drop_bit 8 k < 8388608"
  using assms by (simp_all add: drop_bit_eq_div)

lemma channel_refines:
  fixes r g b :: uint8
  assumes "\<bar>c1\<bar> \<le> 129" "\<bar>c2\<bar> \<le> 129" "\<bar>c3\<bar> \<le> 129" "0 \<le> c" "c \<le> 128"
  shows "uint (clampToByte
           (signed_drop_bit 8
              (word_of_int (c1 * uint r + c2 * uint g + c3 * uint b + 128) :: cint)
            + word_of_int c))
         = clampByte (drop_bit 8 (c1 * uint r + c2 * uint g + c3 * uint b + 128) + c)"
proof -
  let ?k = "c1 * uint r + c2 * uint g + c3 * uint b + 128"
  have q: "\<bar>a\<bar> \<le> 129 \<Longrightarrow> \<bar>a * uint w\<bar> \<le> 129 * 255" for a :: int and w :: uint8
    using uint8_range [of w] mult_mono [of "\<bar>a\<bar>" 129 "uint w" 255]
    by (simp add: abs_mult)
  have p: "\<bar>c1 * uint r\<bar> \<le> 129 * 255" "\<bar>c2 * uint g\<bar> \<le> 129 * 255"
    "\<bar>c3 * uint b\<bar> \<le> 129 * 255"
    using assms by (simp_all only: q)
  then have k: "- 2147483648 \<le> ?k" "?k < 2147483648"
    by linarith+
  have d: "- 2147483648 \<le> drop_bit 8 ?k + c" "drop_bit 8 ?k + c < 2147483648"
    using drop_bit_8_bounds [OF k] assms by linarith+
  show ?thesis
    by (simp only: shift_add_cint [OF k] uint_clampToByte [OF d])
qed

lemma rgbToYuv_y: "uint (yuv_y (rgbToYuv r g b)) = spec_Y (uint r) (uint g) (uint b)"
  using channel_refines [of 66 129 25 16 r g b]
  by (simp add: rgbToYuv_def spec_Y_def Let_def)

lemma rgbToYuv_u: "uint (yuv_u (rgbToYuv r g b)) = spec_U (uint r) (uint g) (uint b)"
  using channel_refines [of "- 38" "- 74" 112 128 r g b]
  by (simp add: rgbToYuv_def spec_U_def Let_def)

lemma rgbToYuv_v: "uint (yuv_v (rgbToYuv r g b)) = spec_V (uint r) (uint g) (uint b)"
  using channel_refines [of 112 "- 94" "- 18" 128 r g b]
  by (simp add: rgbToYuv_def spec_V_def Let_def)


section \<open>The loops of the converter\<close>

text \<open>
  Where a value lies in the range of an \<open>int\<close>, \<open>i32\<close> leaves it as it is. For a
  width with \<open>width * 3 \<le> INT_MAX\<close> that is so for every offset the inner loop
  takes, for \<open>width * (height - 1) * 2 \<le> INT_MAX\<close> for the row offsets, and for
  \<open>width * height * 2 \<le> INT_MAX\<close> for the size.
\<close>

lemma i32_id: "- 2147483648 \<le> k \<Longrightarrow> k \<le> 2147483647 \<Longrightarrow> i32 k = k"
  by (simp add: i32_def)

lemma i32_offsets:
  assumes "0 \<le> x" "x < width" "width * 3 \<le> INT_MAX"
  shows "i32 (x * 3) = x * 3" "r + i32 (i32 (x * 2) + 0) = r + x * 2"
    "r + i32 (i32 (x * 2) + 1) = r + x * 2 + 1" "r + i32 (i32 (x * 2) + 2) = r + x * 2 + 2"
    "r + i32 (i32 (x * 2) + 3) = r + x * 2 + 3"
proof -
  have b: "x * 3 + 3 \<le> 2147483647"
    using assms by (simp add: INT_MAX_def)
  show "i32 (x * 3) = x * 3"
    using assms(1) b by (intro i32_id) linarith+
  have x2: "i32 (x * 2) = x * 2"
    using assms(1) b by (intro i32_id) linarith+
  show "r + i32 (i32 (x * 2) + 0) = r + x * 2" "r + i32 (i32 (x * 2) + 1) = r + x * 2 + 1"
    "r + i32 (i32 (x * 2) + 2) = r + x * 2 + 2" "r + i32 (i32 (x * 2) + 3) = r + x * 2 + 3"
    unfolding x2 using assms(1) b by (simp_all add: i32_id)
qed

lemma convertPairs_step:
  assumes "x + 1 < width" "0 \<le> x" "width * 3 \<le> INT_MAX"
  shows "convertPairs width src rowPtr x dst =
   convertPairs width src rowPtr (x + 2)
     (dst(rowPtr + x * 2 := yuv_y (pixelYuv src x),
          rowPtr + x * 2 + 1 := avgByte (yuv_u (pixelYuv src x)) (yuv_u (pixelYuv src (x + 1))),
          rowPtr + x * 2 + 2 := yuv_y (pixelYuv src (x + 1)),
          rowPtr + x * 2 + 3 := avgByte (yuv_v (pixelYuv src x)) (yuv_v (pixelYuv src (x + 1)))))"
proof -
  have a: "0 \<le> x" "x < width" "0 \<le> x + 1" "x + 1 < width"
    using assms by linarith+
  note o = i32_offsets [OF a(1,2) assms(3)] i32_offsets(1) [OF a(3,4) assms(3)]
  show ?thesis
    by (subst convertPairs.simps, simp only: Let_def o)
      (simp add: pixelYuv_def avgByte_def assms(1))
qed

lemma convertPairs_next:
  assumes "x + 1 < width"
  shows "\<exists>d. convertPairs width src rowPtr x dst = convertPairs width src rowPtr (x + 2) d"
  by (subst convertPairs.simps) (simp only: assms if_True Let_def, blast)

lemma convertPairs_stop:
  "\<not> x + 1 < width \<Longrightarrow> convertPairs width src rowPtr x dst = (x, dst)"
  by (subst convertPairs.simps) simp

lemma convertPairs_frame:
  assumes "width * 3 \<le> INT_MAX" "0 \<le> x" "i < rowPtr + x * 2"
  shows "snd (convertPairs width src rowPtr x dst) i = dst i"
  using assms(2,3)
proof (induction "nat (width - x)" arbitrary: x dst rule: less_induct)
  case less
  show ?case
  proof (cases "x + 1 < width")
    case True
    have "snd (convertPairs width src rowPtr (x + 2) d) i = d i" for d
      using True less.prems by (intro less.hyps) auto
    then show ?thesis
      using less.prems by (simp add: convertPairs_step [OF True less.prems(1) assms(1)])
  next
    case False
    then show ?thesis by (simp add: convertPairs_stop)
  qed
qed

lemma convertPairs_fst:
  "fst (convertPairs width src rowPtr x dst) =
     (if x + 1 < width then x + 2 * ((width - x) div 2) else x)"
proof (induction "nat (width - x)" arbitrary: x dst rule: less_induct)
  case less
  show ?case
  proof (cases "x + 1 < width")
    case True
    have "fst (convertPairs width src rowPtr (x + 2) d) =
          (if x + 2 + 1 < width then x + 2 + 2 * ((width - (x + 2)) div 2) else x + 2)" for d
      using True by (intro less.hyps) auto
    moreover have "(if x + 2 + 1 < width then x + 2 + 2 * ((width - (x + 2)) div 2) else x + 2)
                   = x + 2 * ((width - x) div 2)"
      using True by presburger
    moreover obtain d where
      "convertPairs width src rowPtr x dst = convertPairs width src rowPtr (x + 2) d"
      using convertPairs_next [OF True] by blast
    ultimately show ?thesis
      using True by simp
  next
    case False
    then show ?thesis by (simp add: convertPairs_stop)
  qed
qed

lemma convertPairs_at:
  assumes "width * 3 \<le> INT_MAX" "0 \<le> x" "x \<le> x'" "even (x' - x)" "x' + 1 < width"
  shows "snd (convertPairs width src rowPtr x dst) (rowPtr + x' * 2) = yuv_y (pixelYuv src x')
       \<and> snd (convertPairs width src rowPtr x dst) (rowPtr + x' * 2 + 1)
         = avgByte (yuv_u (pixelYuv src x')) (yuv_u (pixelYuv src (x' + 1)))
       \<and> snd (convertPairs width src rowPtr x dst) (rowPtr + x' * 2 + 2)
         = yuv_y (pixelYuv src (x' + 1))
       \<and> snd (convertPairs width src rowPtr x dst) (rowPtr + x' * 2 + 3)
         = avgByte (yuv_v (pixelYuv src x')) (yuv_v (pixelYuv src (x' + 1)))"
  using assms(2-5)
proof (induction "nat (width - x)" arbitrary: x dst rule: less_induct)
  case less
  have lt: "x + 1 < width" using less.prems by linarith
  note step = convertPairs_step [OF lt less.prems(1) assms(1)]
  show ?case
  proof (cases "x' = x")
    case True
    have "snd (convertPairs width src rowPtr (x + 2) d) i = d i"
      if "i < rowPtr + (x + 2) * 2" for d i
      using less.prems(1) that by (intro convertPairs_frame [OF assms(1)]) simp_all
    then show ?thesis
      unfolding True step by simp
  next
    case False
    then have "x + 2 \<le> x'" "even (x' - (x + 2))"
      using less.prems by presburger+
    then show ?thesis
      using lt less.prems by (simp only: step) (intro less.hyps; simp)
  qed
qed


text \<open>One scan line, with the offsets of its last pixel unwrapped.\<close>

lemma convertRow_unwrapped:
  assumes "width * 3 \<le> INT_MAX" "convertPairs width src rowPtr 0 dst = (x, d)"
  shows "0 \<le> x"
    and "convertRow width src rowPtr dst =
          (if x < width then
             d(rowPtr + x * 2 := yuv_y (pixelYuv src x),
               rowPtr + x * 2 + 1 := yuv_u (pixelYuv src x),
               rowPtr + x * 2 + 2 := yuv_y (pixelYuv src x),
               rowPtr + x * 2 + 3 := yuv_v (pixelYuv src x))
           else d)"
proof -
  show x: "0 \<le> x"
    using convertPairs_fst [of width src rowPtr 0 dst] assms(2) by (simp split: if_splits)
  show "convertRow width src rowPtr dst =
          (if x < width then
             d(rowPtr + x * 2 := yuv_y (pixelYuv src x),
               rowPtr + x * 2 + 1 := yuv_u (pixelYuv src x),
               rowPtr + x * 2 + 2 := yuv_y (pixelYuv src x),
               rowPtr + x * 2 + 3 := yuv_v (pixelYuv src x))
           else d)"
  proof (cases "x < width")
    case True
    note o = i32_offsets [OF x True assms(1)]
    show ?thesis
      unfolding convertRow_def assms(2) prod.case Let_def o
      using True by (simp add: pixelYuv_def)
  next
    case False
    then show ?thesis
      unfolding convertRow_def assms(2) prod.case by simp
  qed
qed

lemma convertRow_frame:
  assumes "width * 3 \<le> INT_MAX" "i < rowPtr"
  shows "convertRow width src rowPtr dst i = dst i"
proof -
  obtain x d where c: "convertPairs width src rowPtr 0 dst = (x, d)"
    by (cases "convertPairs width src rowPtr 0 dst")
  note u = convertRow_unwrapped [OF assms(1) c]
  have d: "d i = dst i"
    using convertPairs_frame [OF assms(1), of 0 i rowPtr src dst] assms(2) c by simp
  show ?thesis
    using assms(2) u(1) d by (simp add: u(2))
qed

lemma convertRow_at_pair:
  assumes "width * 3 \<le> INT_MAX" "0 \<le> x'" "even x'" "x' + 1 < width"
  shows "convertRow width src rowPtr dst (rowPtr + x' * 2) = yuv_y (pixelYuv src x')
       \<and> convertRow width src rowPtr dst (rowPtr + x' * 2 + 1)
         = avgByte (yuv_u (pixelYuv src x')) (yuv_u (pixelYuv src (x' + 1)))
       \<and> convertRow width src rowPtr dst (rowPtr + x' * 2 + 2)
         = yuv_y (pixelYuv src (x' + 1))
       \<and> convertRow width src rowPtr dst (rowPtr + x' * 2 + 3)
         = avgByte (yuv_v (pixelYuv src x')) (yuv_v (pixelYuv src (x' + 1)))"
proof -
  obtain x d where c: "convertPairs width src rowPtr 0 dst = (x, d)"
    by (cases "convertPairs width src rowPtr 0 dst")
  have "x = 2 * (width div 2)"
    using convertPairs_fst [of width src rowPtr 0 dst] c assms by (simp split: if_splits)
  then have x: "x' + 2 \<le> x"
    using assms by presburger
  have "snd (convertPairs width src rowPtr 0 dst) = d"
    using c by simp
  then have d: "d (rowPtr + x' * 2) = yuv_y (pixelYuv src x')
       \<and> d (rowPtr + x' * 2 + 1)
         = avgByte (yuv_u (pixelYuv src x')) (yuv_u (pixelYuv src (x' + 1)))
       \<and> d (rowPtr + x' * 2 + 2) = yuv_y (pixelYuv src (x' + 1))
       \<and> d (rowPtr + x' * 2 + 3)
         = avgByte (yuv_v (pixelYuv src x')) (yuv_v (pixelYuv src (x' + 1)))"
    using convertPairs_at [OF assms(1), of 0 x' src rowPtr dst] assms by simp
  show ?thesis
    using x d by (simp add: convertRow_unwrapped(2) [OF assms(1) c])
qed

text \<open>
  The conditions under which no product of the converter leaves the range of an
  \<open>int\<close>, for an image with a pixel.
\<close>

lemma i32_row:
  assumes "0 \<le> y" "y < height" "0 < width" "width * (height - 1) * 2 \<le> INT_MAX"
  shows "i32 (i32 (y * width) * 2) = y * width * 2"
proof -
  have "y * width \<le> (height - 1) * width"
    using assms by (intro mult_right_mono) linarith+
  then have b: "y * width * 2 \<le> 2147483647"
    using assms(4) by (simp add: INT_MAX_def algebra_simps)
  have n: "0 \<le> y * width"
    using assms by simp
  have "i32 (y * width) = y * width"
    using n b by (intro i32_id) linarith+
  moreover have "i32 (y * width * 2) = y * width * 2"
    using n b by (intro i32_id) linarith+
  ultimately show ?thesis
    by simp
qed

lemma convertRows_step:
  assumes "y < img_height img" "0 \<le> y" "0 < img_width img"
    "img_width img * (img_height img - 1) * 2 \<le> INT_MAX"
  shows "convertRows img y dst =
   convertRows img (y + 1)
     (convertRow (img_width img) (img_scanLine img y) (y * img_width img * 2) dst)"
  using assms(1)
  by (subst convertRows.simps) (simp only: i32_row [OF assms(2,1,3,4)] if_True)

lemma convertRows_stop:
  "\<not> y < img_height img \<Longrightarrow> convertRows img y dst = dst"
  by (subst convertRows.simps) simp

lemma convertRows_frame:
  assumes "0 < img_width img" "img_width img * 3 \<le> INT_MAX"
    "img_width img * (img_height img - 1) * 2 \<le> INT_MAX"
    and "0 \<le> y" "i < y * img_width img * 2"
  shows "convertRows img y dst i = dst i"
  using assms(4,5)
proof (induction "nat (img_height img - y)" arbitrary: y dst rule: less_induct)
  case less
  show ?case
  proof (cases "y < img_height img")
    case True
    have "i < (y + 1) * img_width img * 2"
      using less.prems assms(1) by (simp add: algebra_simps)
    then have "convertRows img (y + 1) d i = d i" for d
      using True less.prems by (intro less.hyps) auto
    then show ?thesis
      using less.prems
      by (simp add: convertRows_step [OF True less.prems(1) assms(1,3)]
          convertRow_frame [OF assms(2)])
  next
    case False
    then show ?thesis by (simp add: convertRows_stop)
  qed
qed

lemma convertRows_at_pair:
  assumes "img_width img * 3 \<le> INT_MAX"
    "img_width img * (img_height img - 1) * 2 \<le> INT_MAX"
    and "0 \<le> y" "y \<le> y'" "y' < img_height img" "0 \<le> x'" "even x'" "x' + 1 < img_width img"
  shows "convertRows img y dst (y' * img_width img * 2 + x' * 2)
         = yuv_y (pixelYuv (img_scanLine img y') x')
       \<and> convertRows img y dst (y' * img_width img * 2 + x' * 2 + 1)
         = avgByte (yuv_u (pixelYuv (img_scanLine img y') x'))
                   (yuv_u (pixelYuv (img_scanLine img y') (x' + 1)))
       \<and> convertRows img y dst (y' * img_width img * 2 + x' * 2 + 2)
         = yuv_y (pixelYuv (img_scanLine img y') (x' + 1))
       \<and> convertRows img y dst (y' * img_width img * 2 + x' * 2 + 3)
         = avgByte (yuv_v (pixelYuv (img_scanLine img y') x'))
                   (yuv_v (pixelYuv (img_scanLine img y') (x' + 1)))"
  using assms(3-8)
proof (induction "nat (img_height img - y)" arbitrary: y dst rule: less_induct)
  case less
  have lt: "y < img_height img" using less.prems by linarith
  have w: "0 < img_width img" using less.prems by linarith
  note step = convertRows_step [OF lt less.prems(1) w assms(2)]
  show ?case
  proof (cases "y' = y")
    case True
    have b: "y * img_width img * 2 + x' * 2 + 3 < (y + 1) * img_width img * 2"
      using less.prems by (simp add: algebra_simps)
    have f: "i \<le> y * img_width img * 2 + x' * 2 + 3 \<Longrightarrow>
             convertRows img (y + 1) d i = d i" for d i
      using b less.prems(1) by (intro convertRows_frame [OF w assms(1,2)]) linarith+
    show ?thesis
      using less.prems(4-6) unfolding True step
      by (simp only: f convertRow_at_pair [OF assms(1)])
  next
    case False
    then have "y + 1 \<le> y'" using less.prems by linarith
    then show ?thesis
      using lt less.prems by (simp only: step) (intro less.hyps; simp)
  qed
qed


lemma rows_in_range:
  assumes "0 < width" "width * height * 2 \<le> INT_MAX"
  shows "width * (height - 1) * 2 \<le> INT_MAX"
  using assms by (simp add: algebra_simps)

lemma i32_size:
  assumes "0 < width" "0 < height" "width * height * 2 \<le> INT_MAX"
  shows "i32 (i32 (width * height) * 2) = width * height * 2" "0 \<le> width * height * 2"
proof -
  have n: "0 \<le> width * height"
    using assms by simp
  have b: "width * height * 2 \<le> 2147483647"
    using assms(3) by (simp add: INT_MAX_def)
  have "i32 (width * height) = width * height"
    using n b by (intro i32_id) linarith+
  moreover have "i32 (width * height * 2) = width * height * 2"
    using n b by (intro i32_id) linarith+
  ultimately show "i32 (i32 (width * height) * 2) = width * height * 2"
    by simp
  show "0 \<le> width * height * 2"
    using n by simp
qed

text \<open>
  Within these ranges the conversion returns an array of exactly
  \<open>width * height * 2\<close> bytes.
\<close>

lemma ba_resize_nonneg: "0 \<le> n \<Longrightarrow> ba_resize n b = b\<lparr>ba_size := n\<rparr>"
  by (simp add: ba_resize_def)

lemma convertRgbToYuyv_in_range:
  assumes "0 < img_width img" "0 < img_height img"
    "img_width img * img_height img * 2 \<le> INT_MAX"
  shows "convertRgbToYuyv img outBuffer =
           (True, \<lparr>ba_size = img_width img * img_height img * 2,
                   ba_data = convertRows img 0 (ba_data outBuffer)\<rparr>)"
proof -
  note sz = i32_size [OF assms]
  have "\<not> (img_width img \<le> 0 \<or> img_height img \<le> 0)"
    using assms by simp
  then show ?thesis
    unfolding convertRgbToYuyv_def Let_def sz(1) ba_resize_nonneg [OF sz(2)]
    by simp
qed

text \<open>The conversion returns failure for the sizes that are not positive, and only then.\<close>

lemma convertRgbToYuyv_false_iff:
  "(\<not> fst (convertRgbToYuyv img outBuffer)) = (img_width img \<le> 0 \<or> img_height img \<le> 0)"
  "\<not> fst (convertRgbToYuyv img outBuffer) \<Longrightarrow> snd (convertRgbToYuyv img outBuffer) = outBuffer"
  by (auto simp: convertRgbToYuyv_def Let_def)

subsection \<open>Odd widths\<close>

text \<open>
  For an odd width the last pixel of a row is written as four bytes from offset
  \<open>(width - 1) * 2\<close> of the row, two bytes more than the row has. In the last row
  these two bytes, the pixel's second Y and its V, lie at offsets \<open>size\<close> and
  \<open>size + 1\<close> of the array, behind its end.
\<close>

lemma convertRow_trailing:
  assumes "width * 3 \<le> INT_MAX" "0 < width" "odd width"
  shows "convertRow width src rowPtr dst (rowPtr + (width - 1) * 2 + 2)
           = yuv_y (pixelYuv src (width - 1))
       \<and> convertRow width src rowPtr dst (rowPtr + (width - 1) * 2 + 3)
           = yuv_v (pixelYuv src (width - 1))"
proof -
  obtain x d where c: "convertPairs width src rowPtr 0 dst = (x, d)"
    by (cases "convertPairs width src rowPtr 0 dst")
  have "x = (if 1 < width then 2 * (width div 2) else 0)"
    using convertPairs_fst [of width src rowPtr 0 dst] c by simp
  then have x: "x = width - 1"
    using assms(2,3) by presburger
  show ?thesis
    using assms(2) by (simp add: convertRow_unwrapped(2) [OF assms(1) c] x)
qed

lemma convertRows_last_row:
  assumes "0 < img_width img" "img_width img * (img_height img - 1) * 2 \<le> INT_MAX"
    and "0 \<le> y" "y < img_height img"
  shows "\<exists>d. convertRows img y dst =
           convertRow (img_width img) (img_scanLine img (img_height img - 1))
             ((img_height img - 1) * img_width img * 2) d"
  using assms(3,4)
proof (induction "nat (img_height img - y)" arbitrary: y dst rule: less_induct)
  case less
  have lt: "y < img_height img" using less.prems by simp
  note step = convertRows_step [OF lt less.prems(1) assms(1,2)]
  show ?case
  proof (cases "y = img_height img - 1")
    case True
    have "convertRows img (y + 1) d = d" for d
      using True by (simp add: convertRows_stop)
    then show ?thesis
      unfolding step True [symmetric] by auto
  next
    case False
    then have "y + 1 < img_height img" "0 \<le> y + 1"
      using less.prems by linarith+
    then show ?thesis
      unfolding step by (intro less.hyps) auto
  qed
qed

lemma odd_width_writes_past_the_end:
  assumes "0 < img_width img" "0 < img_height img" "odd (img_width img)"
    and "img_width img * 3 \<le> INT_MAX" "img_width img * img_height img * 2 \<le> INT_MAX"
  shows "(let out = snd (convertRgbToYuyv img outBuffer);
              p = pixelYuv (img_scanLine img (img_height img - 1)) (img_width img - 1)
          in ba_size out = img_width img * img_height img * 2
           \<and> ba_data out (ba_size out) = yuv_y p
           \<and> ba_data out (ba_size out + 1) = yuv_v p)"
proof -
  let ?w = "img_width img" and ?h = "img_height img"
  obtain d where d: "convertRows img 0 (ba_data outBuffer) =
           convertRow ?w (img_scanLine img (?h - 1)) ((?h - 1) * ?w * 2) d"
    using convertRows_last_row [OF assms(1) rows_in_range [OF assms(1,5)], of 0] assms(2)
    by auto
  have i: "?w * ?h * 2 = (?h - 1) * ?w * 2 + (?w - 1) * 2 + 2"
    "?w * ?h * 2 + 1 = (?h - 1) * ?w * 2 + (?w - 1) * 2 + 3"
    by (simp_all add: algebra_simps)
  note t = convertRow_trailing [OF assms(4,1,3), of "img_scanLine img (?h - 1)" "(?h - 1) * ?w * 2" d]
  have o: "snd (convertRgbToYuyv img outBuffer) =
             \<lparr>ba_size = ?w * ?h * 2,
              ba_data = convertRow ?w (img_scanLine img (?h - 1)) ((?h - 1) * ?w * 2) d\<rparr>"
    unfolding convertRgbToYuyv_in_range [OF assms(1,2,5)] d by simp
  have "ba_data (snd (convertRgbToYuyv img outBuffer)) (?w * ?h * 2)
          = yuv_y (pixelYuv (img_scanLine img (?h - 1)) (?w - 1))"
    unfolding o i(1) using t by simp
  moreover have "ba_data (snd (convertRgbToYuyv img outBuffer)) (?w * ?h * 2 + 1)
          = yuv_v (pixelYuv (img_scanLine img (?h - 1)) (?w - 1))"
    unfolding o i(2) using t by simp
  moreover have "ba_size (snd (convertRgbToYuyv img outBuffer)) = ?w * ?h * 2"
    unfolding o by simp
  ultimately show ?thesis
    by (simp add: Let_def)
qed

text \<open>
  Unfolding the converter on a concrete frame: first the loops, then the arithmetic of
  the pixels.
\<close>

lemmas loop_eval = convertRgbToYuyv_def ba_bytes_def ba_resize_def emptyBuffer_def i32_id
  convertRows.simps convertRow_def convertPairs.simps Let_def upto.simps imageOfRows_def

lemmas word_eval = rgbToYuv_def cint_div_def clampToByte_def word_sless_alt
  signed_divide_int_def Let_def

lemmas pixel_eval = pixelYuv_def rgbToYuv_def clampToByte_def word_sless_alt Let_def
  imageOfRows_def

subsection \<open>A frame whose size leaves the range of an \<open>int\<close>\<close>

text \<open>
  For the black frame of 32768 by 32768 pixels \<open>width * height * 2\<close> is 2147483648 and
  the \<open>int\<close> product -2147483648, so that \<open>resize\<close> leaves the array empty. The row
  offsets \<open>y * width * 2\<close> stay in range, and the loops write the rows to the memory at
  \<open>data()\<close> from offset 0 to offset 2147483647, all of it behind the array.
\<close>

lemma black32768_out:
  "snd (convertRgbToYuyv black32768 emptyBuffer) =
     \<lparr>ba_size = 0, ba_data = convertRows black32768 0 (\<lambda>i. 0)\<rparr>"
  by (simp add: convertRgbToYuyv_def black32768_def Let_def ba_resize_def i32_def emptyBuffer_def)

lemma avgByte_128: "avgByte 128 128 = 128"
  by (simp add: avgByte_def cint_div_def clampToByte_def word_sless_alt signed_divide_int_def)

lemma black32768_first_pair:
  "convertRows black32768 0 dst 0 = 16 \<and> convertRows black32768 0 dst 1 = 128
   \<and> convertRows black32768 0 dst 2 = 16 \<and> convertRows black32768 0 dst 3 = 128"
proof -
  have r: "img_width black32768 * 3 \<le> INT_MAX"
    "img_width black32768 * (img_height black32768 - 1) * 2 \<le> INT_MAX"
    "(0::int) \<le> 0" "(0::int) \<le> 0" "0 < img_height black32768" "(0::int) \<le> 0"
    "even (0::int)" "0 + 1 < img_width black32768"
    by (simp_all add: black32768_def INT_MAX_def)
  have p: "pixelYuv (img_scanLine black32768 0) 0 = \<lparr>yuv_y = 16, yuv_u = 128, yuv_v = 128\<rparr>"
    "pixelYuv (img_scanLine black32768 0) (0 + 1) = \<lparr>yuv_y = 16, yuv_u = 128, yuv_v = 128\<rparr>"
    by (simp_all add: black32768_def pixel_eval)
  show ?thesis
    using convertRows_at_pair [OF r, of dst] unfolding p by (simp add: avgByte_128)
qed

lemma black32768_last_pair:
  "convertRows black32768 0 dst 2147483644 = 16 \<and> convertRows black32768 0 dst 2147483647 = 128"
proof -
  have r: "img_width black32768 * 3 \<le> INT_MAX"
    "img_width black32768 * (img_height black32768 - 1) * 2 \<le> INT_MAX"
    "(0::int) \<le> 0" "(0::int) \<le> 32767" "32767 < img_height black32768" "(0::int) \<le> 32766"
    "even (32766::int)" "32766 + 1 < img_width black32768"
    by (simp_all add: black32768_def INT_MAX_def)
  have p: "pixelYuv (img_scanLine black32768 32767) 32766
             = \<lparr>yuv_y = 16, yuv_u = 128, yuv_v = 128\<rparr>"
    "pixelYuv (img_scanLine black32768 32767) (32766 + 1)
             = \<lparr>yuv_y = 16, yuv_u = 128, yuv_v = 128\<rparr>"
    by (simp_all add: black32768_def pixel_eval)
  have w: "img_width black32768 = 32768"
    by (simp add: black32768_def)
  show ?thesis
    using convertRows_at_pair [OF r, of dst] unfolding p w by (simp add: avgByte_128)
qed

section \<open>The device session\<close>

lemma closeDevice_fields:
  "m_fd (closeDevice s) = - 1" "\<not> m_deviceConfigured (closeDevice s)"
  "m_frameWidth (closeDevice s) = 0" "m_frameHeight (closeDevice s) = 0"
  "m_enabled (closeDevice s) = m_enabled s" "m_devicePath (closeDevice s) = m_devicePath s"
  "errorOccurred (closeDevice s) = errorOccurred s"
  "syscalls (closeDevice s) = syscalls s @ (if m_fd s \<noteq> - 1 then [SysClose (m_fd s)] else [])"
  by (simp_all add: closeDevice_def Let_def)

lemma openDevice_True:
  assumes "openDevice os w h s = (True, s')"
  shows "m_fd s' \<noteq> - 1 \<and> m_enabled s' = m_enabled s \<and> errorOccurred s' = errorOccurred s
         \<and> m_devicePath s' = m_devicePath s"
  using assms
  by (auto simp: openDevice_def Let_def configureFormat_def sys_open_def openFailed_def
      closeDevice_def split: if_splits prod.splits bool.splits)

lemma writeFrame_short:
  assumes "m_fd s \<noteq> - 1" "\<not> isNull frame"
    "k_write os (syscalls s) \<noteq> ba_size (snd (convertRgbToYuyv frame emptyBuffer))"
  shows "writeFrame os frame s =
     (False, s\<lparr>syscalls := syscalls s @
                  [SysWrite (m_fd s) (ba_bytes (snd (convertRgbToYuyv frame emptyBuffer)))
                     (k_write os (syscalls s))],
               errorOccurred := errorOccurred s @ [WriteFailed]\<rparr>)"
proof -
  have "fst (convertRgbToYuyv frame emptyBuffer)"
    using assms(2) convertRgbToYuyv_false_iff(1) [of frame emptyBuffer]
    by (simp add: isNull_def)
  then obtain buffer where c: "convertRgbToYuyv frame emptyBuffer = (True, buffer)"
    by (cases "convertRgbToYuyv frame emptyBuffer") simp
  show ?thesis
    using assms(1,3) unfolding c by (simp add: writeFrame_def c Let_def)
qed

lemma openDevice_closed_session:
  fixes os :: kernel and s :: VirtualCameraStreamer
  defines "fd1 \<equiv> k_open os (syscalls s)"
  defines "cs1 \<equiv> syscalls s @ [SysOpen (m_devicePath s) fd1, SysClose fd1]"
  defines "fd2 \<equiv> k_open os cs1"
  defines "cs2 \<equiv> cs1 @ [SysOpen (m_devicePath s) fd2]"
  defines "r \<equiv> k_ioctl os cs2"
  assumes "m_fd s = - 1" "m_frameWidth s = 0" "m_frameHeight s = 0" "0 < w" "0 < h"
    and "fd1 \<noteq> - 1" "fd2 \<noteq> - 1" "r \<noteq> - 1"
  shows "openDevice os w h s =
           (True, s\<lparr>m_fd := fd2, m_deviceConfigured := True, m_frameWidth := w,
                    m_frameHeight := h, syscalls := cs2 @ [SysIoctl fd2 w h r]\<rparr>)"
  using assms
  by (simp add: openDevice_def Let_def configureFormat_def sys_open_def closeDevice_def)

lemma openDevice_closed_session_fst:
  assumes "m_fd s = - 1" "m_frameWidth s = 0" "m_frameHeight s = 0" "0 < w" "0 < h"
    and "fst (openDevice os w h s)"
  shows "k_open os (syscalls s) \<noteq> - 1"
    and "k_open os (syscalls s @ [SysOpen (m_devicePath s) (k_open os (syscalls s)),
                                   SysClose (k_open os (syscalls s))]) \<noteq> - 1"
    and "k_ioctl os
           ((syscalls s @ [SysOpen (m_devicePath s) (k_open os (syscalls s)),
                           SysClose (k_open os (syscalls s))]) @
            [SysOpen (m_devicePath s)
               (k_open os (syscalls s @ [SysOpen (m_devicePath s) (k_open os (syscalls s)),
                                         SysClose (k_open os (syscalls s))]))]) \<noteq> - 1"
  using assms
  by (auto simp: openDevice_def Let_def configureFormat_def sys_open_def openFailed_def
      closeDevice_def split: if_splits)

text \<open>
  Take an enabled session for which \<open>openDevice\<close> succeeds on a frame and the write of
  that frame is short. Then \<open>onProcessedFrameReady\<close> leaves the session closed: the
  descriptor is \<open>-1\<close>, the configured flag is cleared, the recorded size is 0 by 0,
  the dead descriptor has been closed and the error reported. If \<open>openDevice\<close> then
  succeeds for the next frame, the calls it made are open, close of the descriptor just
  opened, a second open, and one \<open>VIDIOC_S_FMT\<close> on the second descriptor: on a closed
  session the recorded size is 0 by 0, so that the size test of line 248 holds for
  every frame and the branch that closes and opens again runs after each fresh open.
\<close>

lemma short_write_then_openDevice_calls:
  assumes "m_enabled s" "\<not> isNull frame"
    and "openDevice os (img_width frame) (img_height frame) s = (True, s')"
    and "k_write os (syscalls s') \<noteq> ba_size (snd (convertRgbToYuyv frame emptyBuffer))"
    and "\<not> isNull nextFrame"
    and "fst (openDevice os (img_width nextFrame) (img_height nextFrame)
                (onProcessedFrameReady os frame s))"
  shows "(let s1 = onProcessedFrameReady os frame s;
              s2 = snd (openDevice os (img_width nextFrame) (img_height nextFrame) s1);
              recovery = drop (length (syscalls s1)) (syscalls s2);
              fd1 = k_open os (syscalls s1);
              fd2 = k_open os (syscalls s1 @ [SysOpen (m_devicePath s) fd1, SysClose fd1])
          in m_fd s1 = - 1 \<and> \<not> m_deviceConfigured s1
           \<and> m_frameWidth s1 = 0 \<and> m_frameHeight s1 = 0 \<and> m_enabled s1
           \<and> errorOccurred s1 = errorOccurred s @ [WriteFailed]
           \<and> syscalls s1 = syscalls s' @
                [SysWrite (m_fd s') (ba_bytes (snd (convertRgbToYuyv frame emptyBuffer)))
                   (k_write os (syscalls s')),
                 SysClose (m_fd s')]
           \<and> recovery =
                [SysOpen (m_devicePath s) fd1, SysClose fd1, SysOpen (m_devicePath s) fd2,
                 SysIoctl fd2 (img_width nextFrame) (img_height nextFrame)
                   (k_ioctl os (syscalls s1 @ [SysOpen (m_devicePath s) fd1, SysClose fd1,
                                               SysOpen (m_devicePath s) fd2]))]
           \<and> count_opens recovery = 2 \<and> count_ioctls recovery = 1
           \<and> m_fd s2 = fd2 \<and> fd2 \<noteq> - 1 \<and> m_deviceConfigured s2
           \<and> m_frameWidth s2 = img_width nextFrame
           \<and> m_frameHeight s2 = img_height nextFrame)"
proof -
  define s1 where "s1 = onProcessedFrameReady os frame s"
  define fd1 where "fd1 = k_open os (syscalls s1)"
  define cs1 where "cs1 = syscalls s1 @ [SysOpen (m_devicePath s1) fd1, SysClose fd1]"
  define fd2 where "fd2 = k_open os cs1"
  define cs2 where "cs2 = cs1 @ [SysOpen (m_devicePath s1) fd2]"
  define r where "r = k_ioctl os cs2"
  define s2 where "s2 = snd (openDevice os (img_width nextFrame) (img_height nextFrame) s1)"
  note o = openDevice_True [OF assms(3)]
  have w: "writeFrame os frame s' =
     (False, s'\<lparr>syscalls := syscalls s' @
                  [SysWrite (m_fd s') (ba_bytes (snd (convertRgbToYuyv frame emptyBuffer)))
                     (k_write os (syscalls s'))],
               errorOccurred := errorOccurred s' @ [WriteFailed]\<rparr>)"
    using o assms(2,4) by (intro writeFrame_short) simp_all
  have s1: "s1 = closeDevice (s'\<lparr>syscalls := syscalls s' @
                  [SysWrite (m_fd s') (ba_bytes (snd (convertRgbToYuyv frame emptyBuffer)))
                     (k_write os (syscalls s'))],
               errorOccurred := errorOccurred s' @ [WriteFailed]\<rparr>)"
    unfolding s1_def using assms(1,2,3) by (simp add: onProcessedFrameReady_def Let_def w)
  have a: "m_fd s1 = - 1" "\<not> m_deviceConfigured s1" "m_frameWidth s1 = 0" "m_frameHeight s1 = 0"
    "m_enabled s1" "m_devicePath s1 = m_devicePath s"
    "errorOccurred s1 = errorOccurred s @ [WriteFailed]"
    "syscalls s1 = syscalls s' @
            [SysWrite (m_fd s') (ba_bytes (snd (convertRgbToYuyv frame emptyBuffer)))
               (k_write os (syscalls s')),
             SysClose (m_fd s')]"
    using o assms(1) unfolding s1 by (simp_all add: closeDevice_fields)
  have pos: "0 < img_width nextFrame" "0 < img_height nextFrame"
    using assms(5) by (simp_all add: isNull_def)
  have ok: "fst (openDevice os (img_width nextFrame) (img_height nextFrame) s1)"
    using assms(6) by (simp add: s1_def)
  have k: "fd1 \<noteq> - 1" "fd2 \<noteq> - 1" "r \<noteq> - 1"
    unfolding fd1_def fd2_def cs1_def cs2_def r_def
    using openDevice_closed_session_fst [OF a(1,3,4) pos ok] by simp_all
  have od: "openDevice os (img_width nextFrame) (img_height nextFrame) s1 =
           (True, s1\<lparr>m_fd := fd2, m_deviceConfigured := True, m_frameWidth := img_width nextFrame,
                    m_frameHeight := img_height nextFrame,
                    syscalls := cs2 @ [SysIoctl fd2 (img_width nextFrame) (img_height nextFrame) r]\<rparr>)"
    unfolding fd1_def fd2_def cs1_def cs2_def r_def
    using a(1,3,4) pos k
    unfolding fd1_def fd2_def cs1_def cs2_def r_def
    by (intro openDevice_closed_session)
  have s2: "s2 = s1\<lparr>m_fd := fd2, m_deviceConfigured := True, m_frameWidth := img_width nextFrame,
                    m_frameHeight := img_height nextFrame,
                    syscalls := cs2 @ [SysIoctl fd2 (img_width nextFrame) (img_height nextFrame) r]\<rparr>"
    unfolding s2_def od by simp
  have l: "drop (length (syscalls s1)) (syscalls s2) =
            [SysOpen (m_devicePath s) fd1, SysClose fd1, SysOpen (m_devicePath s) fd2,
             SysIoctl fd2 (img_width nextFrame) (img_height nextFrame) r]"
    unfolding s2 by (simp add: cs2_def cs1_def a(6))
  have c: "count_opens (drop (length (syscalls s1)) (syscalls s2)) = 2"
    "count_ioctls (drop (length (syscalls s1)) (syscalls s2)) = 1"
    unfolding l by (simp_all add: count_opens_def count_ioctls_def)
  have f: "m_fd s2 = fd2" "m_deviceConfigured s2" "m_frameWidth s2 = img_width nextFrame"
    "m_frameHeight s2 = img_height nextFrame"
    unfolding s2 by simp_all
  have r: "r = k_ioctl os (syscalls s1 @ [SysOpen (m_devicePath s) fd1, SysClose fd1,
                                               SysOpen (m_devicePath s) fd2])"
    by (simp add: r_def cs2_def cs1_def a(6))
  have fd2: "fd2 = k_open os (syscalls s1 @ [SysOpen (m_devicePath s) fd1, SysClose fd1])"
    by (simp add: fd2_def cs1_def a(6))
  show ?thesis
    unfolding Let_def s1_def [symmetric] s2_def [symmetric] fd1_def [symmetric]
      fd2 [symmetric] r [symmetric]
    using a(1-5,7,8) l c f k(2) by simp
qed


lemma solidRed4x2_bytes:
  "ba_bytes (snd (convertRgbToYuyv solidRed4x2 emptyBuffer))
     = [82, 90, 82, 240,  82, 90, 82, 240,  82, 90, 82, 240,  82, 90, 82, 240]"
  by (simp add: loop_eval solidRed4x2_def, simp add: word_eval)

lemma solidRed4x2_size: "img_width solidRed4x2 = 4" "img_height solidRed4x2 = 2"
  by (simp_all add: solidRed4x2_def)

lemma redYuyv:
  "convertRgbToYuyv solidRed4x2 emptyBuffer = (True, redYuyv)"
  "ba_size redYuyv = 16"
  "ba_bytes redYuyv = [82, 90, 82, 240,  82, 90, 82, 240,  82, 90, 82, 240,  82, 90, 82, 240]"
proof -
  show "convertRgbToYuyv solidRed4x2 emptyBuffer = (True, redYuyv)"
    unfolding redYuyv_def
    by (simp add: convertRgbToYuyv_def solidRed4x2_size Let_def)
  show "ba_size redYuyv = 16"
    unfolding redYuyv_def
    by (simp add: convertRgbToYuyv_def solidRed4x2_size Let_def ba_resize_def i32_id)
  show "ba_bytes redYuyv = [82, 90, 82, 240,  82, 90, 82, 240,  82, 90, 82, 240,  82, 90, 82, 240]"
    unfolding redYuyv_def by (rule solidRed4x2_bytes)
qed

lemmas stream_eval = onProcessedFrameReady_def openDevice_def writeFrame_def closeDevice_def
  configureFormat_def sys_open_def openFailed_def setEnabled_def newStreamer_def isNull_def
  secondWriteShort_def count_opens_def count_writes_def kDefaultDevicePath_def Let_def

text \<open>The scripted run, evaluated: the state after the first and after the second frame.\<close>

lemma afterFirstFrame_eq:
  "afterFirstFrame =
     \<lparr>m_fd = 4, m_devicePath = ''/dev/video42'', m_enabled = True,
      m_deviceConfigured = True, m_frameWidth = 4, m_frameHeight = 2,
      errorOccurred = [],
      syscalls = [SysOpen ''/dev/video42'' 3, SysClose 3, SysOpen ''/dev/video42'' 4,
                  SysIoctl 4 4 2 0,
                  SysWrite 4 [82, 90, 82, 240,  82, 90, 82, 240,  82, 90, 82, 240,  82, 90, 82, 240] 16]\<rparr>"
  unfolding afterFirstFrame_def
  by (simp add: stream_eval solidRed4x2_size redYuyv)

lemma afterShortWrite_eq:
  "afterShortWrite =
     \<lparr>m_fd = - 1, m_devicePath = ''/dev/video42'', m_enabled = True,
      m_deviceConfigured = False, m_frameWidth = 0, m_frameHeight = 0,
      errorOccurred = [WriteFailed],
      syscalls = [SysOpen ''/dev/video42'' 3, SysClose 3, SysOpen ''/dev/video42'' 4,
                  SysIoctl 4 4 2 0,
                  SysWrite 4 [82, 90, 82, 240,  82, 90, 82, 240,  82, 90, 82, 240,  82, 90, 82, 240] 16,
                  SysWrite 4 [82, 90, 82, 240,  82, 90, 82, 240,  82, 90, 82, 240,  82, 90, 82, 240] 5,
                  SysClose 4]\<rparr>"
  unfolding afterShortWrite_def afterFirstFrame_eq
  by (simp add: stream_eval solidRed4x2_size redYuyv)

lemma recovery_eq:
  "openDevice secondWriteShort 4 2 afterShortWrite =
    (True,
     \<lparr>m_fd = 6, m_devicePath = ''/dev/video42'', m_enabled = True,
      m_deviceConfigured = True, m_frameWidth = 4, m_frameHeight = 2,
      errorOccurred = [WriteFailed],
      syscalls = syscalls afterShortWrite @
                 [SysOpen ''/dev/video42'' 5, SysClose 5, SysOpen ''/dev/video42'' 6,
                  SysIoctl 6 4 2 0]\<rparr>)"
  unfolding afterShortWrite_eq
  by (simp add: stream_eval)

text \<open>
  A change of the frame size on the open, configured session after the first frame:
  close, one open, one \<open>VIDIOC_S_FMT\<close>.
\<close>

lemma size_change_eq:
  "openDevice secondWriteShort 3 2 afterFirstFrame =
    (True,
     \<lparr>m_fd = 5, m_devicePath = ''/dev/video42'', m_enabled = True,
      m_deviceConfigured = True, m_frameWidth = 3, m_frameHeight = 2,
      errorOccurred = [],
      syscalls = syscalls afterFirstFrame @
                 [SysClose 4, SysOpen ''/dev/video42'' 5, SysIoctl 5 3 2 0]\<rparr>)"
  unfolding afterFirstFrame_eq
  by (simp add: stream_eval)

section \<open>The preview widget\<close>

lemma qBound_unit: "0 \<le> qBound 0 v 1 \<and> qBound 0 v 1 \<le> 1"
  by (simp add: qBound_def)

lemma setFilterStrength_cases:
  "m_filterStrength (setFilterStrength v s) = m_filterStrength s
   \<or> m_filterStrength (setFilterStrength v s) = qBound 0 v 1"
  by (simp add: setFilterStrength_def Let_def)

lemma paintGL_strength: "m_filterStrength (paintGL l b s) = m_filterStrength s"
  by (simp add: paintGL_def Let_def uploadTextureIfNeeded_def ensureGeometry_def
      ensureProgram_def ensureFramebuffer_def split: option.splits)

lemma step_strength_other:
  "(\<forall>v. e \<noteq> SetFilterStrength v) \<Longrightarrow> m_filterStrength (step e s) = m_filterStrength s"
  by (cases e)
    (simp_all add: paintGL_strength updateVideoFrame_def setFilter_def initializeGL_def
      handleContextAboutToBeDestroyed_def cleanupGLResources_def ensureGeometry_def
      ensureProgram_def split: option.splits)

lemma step_strength_inv:
  assumes "0 \<le> m_filterStrength s \<and> m_filterStrength s \<le> 1"
  shows "0 \<le> m_filterStrength (step e s) \<and> m_filterStrength (step e s) \<le> 1"
proof (cases "\<exists>v. e = SetFilterStrength v")
  case True
  then obtain v where e: "e = SetFilterStrength v" by blast
  show ?thesis
    using setFilterStrength_cases [of v s] qBound_unit [of v] assms
    unfolding e by auto
next
  case False
  then show ?thesis using assms by (simp add: step_strength_other)
qed

lemma run_strength_inv:
  "0 \<le> m_filterStrength s \<and> m_filterStrength s \<le> 1 \<Longrightarrow>
   0 \<le> m_filterStrength (run es s) \<and> m_filterStrength (run es s) \<le> 1"
proof (induction es arbitrary: s)
  case Nil
  then show ?case by simp
next
  case (Cons e es)
  show ?case
    using Cons.IH [OF step_strength_inv [OF Cons.prems]] by simp
qed

lemma paintGL_once:
  fixes l b :: bool and s :: FilterPreviewWidget and f :: QImage
  assumes "m_currentImage s = f" "\<not> isNull f" "uploaded f s"
  defines "s' \<equiv> paintGL l b s"
  defines "pf \<equiv> \<lparr>pf_source = f, pf_filter = m_filterType s, pf_strength = m_filterStrength s\<rparr>"
  shows "m_currentImage s' = f" "uploaded f s'"
    "m_filterType s' = m_filterType s" "m_filterStrength s' = m_filterStrength s"
    "m_emitPending s \<Longrightarrow> (\<not> m_emitPending s' \<and> processedFrameReady s' = processedFrameReady s @ [pf])
        \<or> (m_emitPending s' \<and> processedFrameReady s' = processedFrameReady s)"
    "\<not> m_emitPending s \<Longrightarrow> \<not> m_emitPending s' \<and> processedFrameReady s' = processedFrameReady s"
    "m_emitPending s \<Longrightarrow> l \<Longrightarrow> b \<Longrightarrow> \<not> m_emitPending s'"
  using assms(1,2,3) unfolding s'_def pf_def
  by (auto simp: paintGL_def Let_def uploadTextureIfNeeded_def ensureGeometry_def
      ensureProgram_def ensureFramebuffer_def uploaded_def isNull_def isEmpty_def img_size_def
      split: option.splits)


lemma paints_once:
  assumes "m_currentImage s = f" "\<not> isNull f" "uploaded f s"
  shows "m_currentImage (run (paints ps) s) = f \<and> uploaded f (run (paints ps) s)
    \<and> m_filterType (run (paints ps) s) = m_filterType s
    \<and> m_filterStrength (run (paints ps) s) = m_filterStrength s
    \<and> (m_emitPending s \<longrightarrow>
          (\<not> m_emitPending (run (paints ps) s)
             \<and> processedFrameReady (run (paints ps) s) = processedFrameReady s @
                 [\<lparr>pf_source = f, pf_filter = m_filterType s, pf_strength = m_filterStrength s\<rparr>])
          \<or> (m_emitPending (run (paints ps) s)
             \<and> processedFrameReady (run (paints ps) s) = processedFrameReady s))
    \<and> (\<not> m_emitPending s \<longrightarrow>
          \<not> m_emitPending (run (paints ps) s)
          \<and> processedFrameReady (run (paints ps) s) = processedFrameReady s)
    \<and> ((True, True) \<in> set ps \<longrightarrow> \<not> m_emitPending (run (paints ps) s))"
  using assms
proof (induction ps arbitrary: s)
  case Nil
  then show ?case by (simp add: paints_def)
next
  case (Cons p ps)
  let ?s1 = "paintGL (fst p) (snd p) s"
  note one = paintGL_once [OF Cons.prems, of "fst p" "snd p"]
  note ih = Cons.IH [OF one(1) Cons.prems(2) one(2)]
  have r: "run (paints (p # ps)) s = run (paints ps) ?s1"
    by (simp add: paints_def)
  show ?case
  proof (cases "m_emitPending s")
    case False
    with one(6) have "\<not> m_emitPending ?s1" "processedFrameReady ?s1 = processedFrameReady s"
      by simp_all
    with ih False one(3,4) show ?thesis unfolding r by simp
  next
    case True
    from one(5) [OF True] show ?thesis
    proof
      assume a: "\<not> m_emitPending ?s1 \<and> processedFrameReady ?s1 = processedFrameReady s @
          [\<lparr>pf_source = f, pf_filter = m_filterType s, pf_strength = m_filterStrength s\<rparr>]"
      with ih True one(3,4) show ?thesis unfolding r by simp
    next
      assume a: "m_emitPending ?s1 \<and> processedFrameReady ?s1 = processedFrameReady s"
      have "p \<noteq> (True, True)"
        using one(7) [OF True] a by (cases p) auto
      with a ih True one(3,4) show ?thesis unfolding r by auto
    qed
  qed
qed

lemma frameBlock_once:
  assumes "\<not> isNull f"
  shows "processedFrameReady (run (frameBlock (f, ps)) s) =
           processedFrameReady s @
           (if m_emitPending (run (frameBlock (f, ps)) s) then []
            else [\<lparr>pf_source = f, pf_filter = m_filterType s, pf_strength = m_filterStrength s\<rparr>])"
    and "(True, True) \<in> set ps \<Longrightarrow> \<not> m_emitPending (run (frameBlock (f, ps)) s)"
proof -
  let ?s0 = "updateVideoFrame (Some f) s"
  have u: "m_currentImage ?s0 = f" "uploaded f ?s0" "m_emitPending ?s0"
    "m_filterType ?s0 = m_filterType s" "m_filterStrength ?s0 = m_filterStrength s"
    "processedFrameReady ?s0 = processedFrameReady s"
    using assms by (simp_all add: updateVideoFrame_def uploaded_def)
  have r: "run (frameBlock (f, ps)) s = run (paints ps) ?s0"
    by (simp add: frameBlock_def paints_def)
  note p = paints_once [OF u(1) assms u(2), of ps]
  show "processedFrameReady (run (frameBlock (f, ps)) s) =
           processedFrameReady s @
           (if m_emitPending (run (frameBlock (f, ps)) s) then []
            else [\<lparr>pf_source = f, pf_filter = m_filterType s, pf_strength = m_filterStrength s\<rparr>])"
    using p u(3) unfolding r u(4,5,6) by auto
  show "(True, True) \<in> set ps \<Longrightarrow> \<not> m_emitPending (run (frameBlock (f, ps)) s)"
    using p unfolding r by simp
qed

lemma run_append: "run (es @ es') s = run es' (run es s)"
  by (induction es arbitrary: s) simp_all

lemma gl_success_processes:
  assumes "\<forall>b \<in> set blocks. \<not> isNull (fst b) \<and> (True, True) \<in> set (snd b)"
  shows "processedEach blocks s"
  using assms
proof (induction blocks arbitrary: s)
  case Nil
  then show ?case by simp
next
  case (Cons blk blocks)
  obtain f ps where blk: "blk = (f, ps)" by (cases blk)
  have n: "\<not> isNull f" "(True, True) \<in> set ps"
    using Cons.prems by (simp_all add: blk)
  have "\<not> m_emitPending (run (frameBlock (f, ps)) t)" for t
    using n by (intro frameBlock_once(2))
  moreover have "processedEach blocks t" for t
    using Cons.prems by (intro Cons.IH) simp
  ultimately show ?case
    using n by (simp add: blk)
qed


text \<open>Unfolding the widget on a concrete run.\<close>

lemmas widget_eval = twoFrames_def newWidget_def frameBlock_def paintGL_def Let_def
  updateVideoFrame_def uploadTextureIfNeeded_def ensureGeometry_def ensureProgram_def
  ensureFramebuffer_def isNull_def isEmpty_def img_size_def nullImage_def
  solidRed4x2_def rgb3x2_def imageOfRows_def

section \<open>The shaders\<close>

lemma fragment_refines: "fragmentMain (filterIndex k) strength src = spec_final k strength src"
  by (cases src; cases k)
    (simp_all add: Let_def toGrayscale_def toSepia_def toWarm_def toCool_def mult.commute)

lemma fragment_strength_zero: "fragmentMain u_filter 0 src = src"
proof (cases src)
  case (Vec4 r g b a)
  obtain x y z where t: "clamp3 (if u_filter = 1 then toGrayscale (Vec3 r g b)
             else if u_filter = 2 then toSepia (Vec3 r g b)
             else if u_filter = 3 then sub3 (Vec3 1 1 1) (Vec3 r g b)
             else if u_filter = 4 then toWarm (Vec3 r g b)
             else if u_filter = 5 then toCool (Vec3 r g b)
             else Vec3 r g b) 0 1 = Vec3 x y z"
    by (meson vec3.exhaust)
  show ?thesis
    unfolding Vec4 by (simp add: Let_def t clampf_def mixf_def)
qed

text \<open>The scale for any positive frame and target size.\<close>

lemma aspectFitScale_fits:
  assumes "0 < fw" "0 < fh" "0 < tw" "0 < th"
  shows "aspectFitScale (fw, fh) (tw, th)
           = (if fw / fh > real_of_int tw / real_of_int th
              then Vec2 1 ((fw / fh) / (real_of_int tw / real_of_int th))
              else Vec2 ((real_of_int tw / real_of_int th) / (fw / fh)) 1)
       \<and> (fw / fh = real_of_int tw / real_of_int th \<longrightarrow> aspectFitScale (fw, fh) (tw, th) = Vec2 1 1)
       \<and> (\<exists>sx sy. aspectFitScale (fw, fh) (tw, th) = Vec2 sx sy \<and> 1 \<le> sx \<and> 1 \<le> sy
            \<and> (\<forall>px py. \<bar>px\<bar> \<le> 1 \<and> \<bar>py\<bar> \<le> 1 \<longrightarrow>
                 vertexMain (Vec2 sx sy) (Vec2 px py) = Vec2 (px / sx) (py / sy)
                 \<and> \<bar>px / sx\<bar> \<le> 1 \<and> \<bar>py / sy\<bar> \<le> 1))"
proof -
  define fa where "fa = fw / fh"
  define ta where "ta = real_of_int tw / real_of_int th"
  have fa: "0 < fa" and ta: "0 < ta"
    using assms by (simp_all add: fa_def ta_def)
  have shrink: "\<bar>p / c\<bar> \<le> 1" if "\<bar>p\<bar> \<le> 1" "1 \<le> c" for p c :: real
  proof -
    have "\<bar>p / c\<bar> = \<bar>p\<bar> / c" using that by simp
    also have "\<dots> \<le> 1" using that by (simp add: divide_le_eq)
    finally show ?thesis .
  qed
  have scale: "aspectFitScale (fw, fh) (tw, th)
                 = (if fa > ta then Vec2 1 (fa / ta) else Vec2 (ta / fa) 1)"
    by (simp add: aspectFitScale_def Let_def fa_def ta_def)
  have eq: "fa = ta \<Longrightarrow> aspectFitScale (fw, fh) (tw, th) = Vec2 1 1"
    using fa by (simp add: scale)
  have ge: "1 \<le> (if fa > ta then fa / ta else 1)" "1 \<le> (if fa > ta then 1 else ta / fa)"
    using fa ta by (simp_all add: le_divide_eq_1_pos)
  have ex: "\<exists>sx sy. aspectFitScale (fw, fh) (tw, th) = Vec2 sx sy \<and> 1 \<le> sx \<and> 1 \<le> sy
            \<and> (\<forall>px py. \<bar>px\<bar> \<le> 1 \<and> \<bar>py\<bar> \<le> 1 \<longrightarrow>
                 vertexMain (Vec2 sx sy) (Vec2 px py) = Vec2 (px / sx) (py / sy)
                 \<and> \<bar>px / sx\<bar> \<le> 1 \<and> \<bar>py / sy\<bar> \<le> 1)"
  proof (intro exI conjI allI impI)
    show "aspectFitScale (fw, fh) (tw, th)
            = Vec2 (if fa > ta then 1 else ta / fa) (if fa > ta then fa / ta else 1)"
      by (simp add: scale)
  qed (use ge shrink in simp_all)
  show ?thesis
    using scale eq ex unfolding fa_def ta_def by blast
qed




lemma frameAspectSize_pos: "0 < fst (frameAspectSize s) \<and> 0 < snd (frameAspectSize s)"
  by (simp add: frameAspectSize_def isNull_def)

section \<open>Claims about the colour-space converter\<close>

text \<open>
  C3: for every byte triple (R, G, B) the 32-bit computation of \<open>rgbToYuv\<close> yields
  exactly the specification's integer formulas
  Y = clampByte(((66R + 129G + 25B + 128) >> 8) + 16),
  U = clampByte(((-38R - 74G + 112B + 128) >> 8) + 128),
  V = clampByte(((112R - 94G - 18B + 128) >> 8) + 128);
  and the 4 by 2 solid red frame converts to Y = 82, U = 90, V = 240 for every pixel,
  packed into 4 macropixels of 4 bytes, 16 bytes in all.
\<close>

theorem rgbToYuv_exact_and_solid_red:
  "(\<forall>r g b. uint (yuv_y (rgbToYuv r g b)) = spec_Y (uint r) (uint g) (uint b)
          \<and> uint (yuv_u (rgbToYuv r g b)) = spec_U (uint r) (uint g) (uint b)
          \<and> uint (yuv_v (rgbToYuv r g b)) = spec_V (uint r) (uint g) (uint b))
   \<and> rgbToYuv 255 0 0 = \<lparr>yuv_y = 82, yuv_u = 90, yuv_v = 240\<rparr>
   \<and> fst (convertRgbToYuyv solidRed4x2 emptyBuffer)
   \<and> ba_size (snd (convertRgbToYuyv solidRed4x2 emptyBuffer)) = 16
   \<and> ba_bytes (snd (convertRgbToYuyv solidRed4x2 emptyBuffer))
       = [82, 90, 82, 240,  82, 90, 82, 240,  82, 90, 82, 240,  82, 90, 82, 240]"
proof -
  have "rgbToYuv 255 0 0 = \<lparr>yuv_y = 82, yuv_u = 90, yuv_v = 240\<rparr>"
    by (simp add: rgbToYuv_def clampToByte_def Let_def word_sless_alt)
  moreover have "fst (convertRgbToYuyv solidRed4x2 emptyBuffer)"
    by (simp add: convertRgbToYuyv_def solidRed4x2_def Let_def)
  moreover have "ba_size (snd (convertRgbToYuyv solidRed4x2 emptyBuffer)) = 16"
    by (simp add: convertRgbToYuyv_def solidRed4x2_def ba_resize_def Let_def i32_id)
  moreover have "ba_bytes (snd (convertRgbToYuyv solidRed4x2 emptyBuffer))
       = [82, 90, 82, 240,  82, 90, 82, 240,  82, 90, 82, 240,  82, 90, 82, 240]"
    by (simp add: loop_eval solidRed4x2_def, simp add: word_eval)
  ultimately show ?thesis
    by (simp only: rgbToYuv_y rgbToYuv_u rgbToYuv_v simp_thms)
qed




text \<open>
  C5: the claim is that the conversion fails exactly for the sizes that are not
  positive, and that it succeeds, with an array of exactly \<open>width * height * 2\<close>
  bytes, for every image of positive width and height, odd widths included. Line 58
  guards against sizes that are not positive only. For the black frame of 32768 by
  32768 pixels \<open>width * height * 2\<close> is 2147483648, one more than \<open>INT_MAX\<close>: the
  \<open>int\<close> product is -2147483648, \<open>resize\<close> takes it for 0, and the array has 0 bytes
  while the loops write from offset 0 to offset 2147483647 of the memory at \<open>data()\<close>.
  And for the frame of a single red pixel, of odd width 1, the conversion returns
  success with an array of 2 bytes, having written 4: the pixel's second Y and its V
  lie at offsets 2 and 3, behind the array.
\<close>

theorem convertRgbToYuyv_size_overflows:
  "0 < img_width black32768 \<and> 0 < img_height black32768
   \<and> img_width black32768 * img_height black32768 * 2 = 2147483648
   \<and> i32 (i32 (img_width black32768 * img_height black32768) * 2) = - 2147483648
   \<and> ba_size (snd (convertRgbToYuyv black32768 emptyBuffer)) = 0
   \<and> ba_data (snd (convertRgbToYuyv black32768 emptyBuffer)) 0 = 16
   \<and> ba_data (snd (convertRgbToYuyv black32768 emptyBuffer)) 2147483647 = 128
   \<and> ba_data emptyBuffer 0 = 0 \<and> ba_data emptyBuffer 2147483647 = 0
   \<and> fst (convertRgbToYuyv red1x1 emptyBuffer)
   \<and> ba_size (snd (convertRgbToYuyv red1x1 emptyBuffer)) = 2
   \<and> ba_bytes (snd (convertRgbToYuyv red1x1 emptyBuffer)) = [82, 90]
   \<and> ba_data (snd (convertRgbToYuyv red1x1 emptyBuffer)) 2 = 82
   \<and> ba_data (snd (convertRgbToYuyv red1x1 emptyBuffer)) 3 = 240
   \<and> ba_data emptyBuffer 2 = 0 \<and> ba_data emptyBuffer 3 = 0"
proof -
  have "0 < img_width black32768 \<and> 0 < img_height black32768
      \<and> img_width black32768 * img_height black32768 * 2 = 2147483648
      \<and> i32 (i32 (img_width black32768 * img_height black32768) * 2) = - 2147483648"
    by (simp add: black32768_def i32_def)
  moreover have "ba_size (snd (convertRgbToYuyv black32768 emptyBuffer)) = 0
      \<and> ba_data (snd (convertRgbToYuyv black32768 emptyBuffer)) 0 = 16
      \<and> ba_data (snd (convertRgbToYuyv black32768 emptyBuffer)) 2147483647 = 128"
    unfolding black32768_out
    using black32768_first_pair [of "\<lambda>i. 0"] black32768_last_pair [of "\<lambda>i. 0"] by simp
  moreover have "fst (convertRgbToYuyv red1x1 emptyBuffer)
      \<and> ba_size (snd (convertRgbToYuyv red1x1 emptyBuffer)) = 2
      \<and> ba_bytes (snd (convertRgbToYuyv red1x1 emptyBuffer)) = [82, 90]
      \<and> ba_data (snd (convertRgbToYuyv red1x1 emptyBuffer)) 2 = 82
      \<and> ba_data (snd (convertRgbToYuyv red1x1 emptyBuffer)) 3 = 240"
    by (simp add: loop_eval red1x1_def, simp add: word_eval)
  moreover have "ba_data emptyBuffer 0 = 0 \<and> ba_data emptyBuffer 2147483647 = 0
      \<and> ba_data emptyBuffer 2 = 0 \<and> ba_data emptyBuffer 3 = 0"
    by (simp add: emptyBuffer_def)
  ultimately show ?thesis by blast
qed

text \<open>
  C6: the claim is that the trailing column of an odd-width row is encoded in a final
  macropixel of its own with the pixel's own U and V. On the 3 by 2 frame \<open>rgb3x2\<close>
  the conversion succeeds with an array of 12 bytes, 6 per row. Row 0 ends with the
  blue pixel (Y = 41, U = 240, V = 110): only its Y and U are in the array (offsets 4
  and 5); its second Y and its V were written to offsets 6 and 7, the start of row 1,
  and overwritten there by row 1's first pair, so that V = 110 is nowhere in row 0.
  Row 1 ends with the green pixel (Y = 144, U = 54, V = 34): its second Y and its V
  went to offsets 12 and 13, behind the end of the 12-byte array (as lemma
  \<open>odd_width_writes_past_the_end\<close> shows for every odd width).
\<close>

theorem odd_width_trailing_macropixel_truncated:
  "pixelYuv (img_scanLine rgb3x2 0) 2 = \<lparr>yuv_y = 41, yuv_u = 240, yuv_v = 110\<rparr>
   \<and> pixelYuv (img_scanLine rgb3x2 1) 2 = \<lparr>yuv_y = 144, yuv_u = 54, yuv_v = 34\<rparr>
   \<and> fst (convertRgbToYuyv rgb3x2 emptyBuffer)
   \<and> ba_size (snd (convertRgbToYuyv rgb3x2 emptyBuffer)) = 12
   \<and> ba_bytes (snd (convertRgbToYuyv rgb3x2 emptyBuffer))
       = [82, 72, 144, 137, 41, 240,  41, 165, 82, 175, 144, 54]
   \<and> ba_data (snd (convertRgbToYuyv rgb3x2 emptyBuffer)) 12 = 144
   \<and> ba_data (snd (convertRgbToYuyv rgb3x2 emptyBuffer)) 13 = 34
   \<and> ba_data emptyBuffer 12 = 0 \<and> ba_data emptyBuffer 13 = 0"
proof -
  have "pixelYuv (img_scanLine rgb3x2 0) 2 = \<lparr>yuv_y = 41, yuv_u = 240, yuv_v = 110\<rparr>"
    by (simp add: rgb3x2_def pixel_eval)
  moreover have "pixelYuv (img_scanLine rgb3x2 1) 2 = \<lparr>yuv_y = 144, yuv_u = 54, yuv_v = 34\<rparr>"
    by (simp add: rgb3x2_def pixel_eval)
  moreover have "fst (convertRgbToYuyv rgb3x2 emptyBuffer)
   \<and> ba_size (snd (convertRgbToYuyv rgb3x2 emptyBuffer)) = 12
   \<and> ba_bytes (snd (convertRgbToYuyv rgb3x2 emptyBuffer))
       = [82, 72, 144, 137, 41, 240,  41, 165, 82, 175, 144, 54]
   \<and> ba_data (snd (convertRgbToYuyv rgb3x2 emptyBuffer)) 12 = 144
   \<and> ba_data (snd (convertRgbToYuyv rgb3x2 emptyBuffer)) 13 = 34"
    by (simp add: loop_eval rgb3x2_def, simp add: word_eval)
  moreover have "ba_data emptyBuffer 12 = 0 \<and> ba_data emptyBuffer 13 = 0"
    by (simp add: emptyBuffer_def)
  ultimately show ?thesis by blast
qed

text \<open>
  C10: the claim is that the trailing macropixel of an odd-width row is [Y, U, Y, V]
  with the lone pixel's Y in both luma slots. On the 1 by 2 frame \<open>redGreen1x2\<close>
  (a red pixel, Y = 82, U = 90, V = 240, above a green one, Y = 144, U = 54, V = 34)
  the conversion succeeds with an array of 4 bytes, [82, 90, 144, 54]: the four bytes
  from the start of row 0 are not [82, 90, 82, 240], the slot of the second luma holds
  the luma of the next row, and the second Y and the V of row 1 went to offsets 4 and
  5, behind the end of the array.
\<close>

theorem odd_width_second_luma_overwritten:
  "pixelYuv (img_scanLine redGreen1x2 0) 0 = \<lparr>yuv_y = 82, yuv_u = 90, yuv_v = 240\<rparr>
   \<and> pixelYuv (img_scanLine redGreen1x2 1) 0 = \<lparr>yuv_y = 144, yuv_u = 54, yuv_v = 34\<rparr>
   \<and> fst (convertRgbToYuyv redGreen1x2 emptyBuffer)
   \<and> ba_size (snd (convertRgbToYuyv redGreen1x2 emptyBuffer)) = 4
   \<and> ba_bytes (snd (convertRgbToYuyv redGreen1x2 emptyBuffer)) = [82, 90, 144, 54]
   \<and> ba_data (snd (convertRgbToYuyv redGreen1x2 emptyBuffer)) 4 = 144
   \<and> ba_data (snd (convertRgbToYuyv redGreen1x2 emptyBuffer)) 5 = 34
   \<and> ba_data emptyBuffer 4 = 0 \<and> ba_data emptyBuffer 5 = 0"
proof -
  have "pixelYuv (img_scanLine redGreen1x2 0) 0 = \<lparr>yuv_y = 82, yuv_u = 90, yuv_v = 240\<rparr>"
    by (simp add: redGreen1x2_def pixel_eval)
  moreover have "pixelYuv (img_scanLine redGreen1x2 1) 0 = \<lparr>yuv_y = 144, yuv_u = 54, yuv_v = 34\<rparr>"
    by (simp add: redGreen1x2_def pixel_eval)
  moreover have "fst (convertRgbToYuyv redGreen1x2 emptyBuffer)
   \<and> ba_size (snd (convertRgbToYuyv redGreen1x2 emptyBuffer)) = 4
   \<and> ba_bytes (snd (convertRgbToYuyv redGreen1x2 emptyBuffer)) = [82, 90, 144, 54]
   \<and> ba_data (snd (convertRgbToYuyv redGreen1x2 emptyBuffer)) 4 = 144
   \<and> ba_data (snd (convertRgbToYuyv redGreen1x2 emptyBuffer)) 5 = 34"
    by (simp add: loop_eval redGreen1x2_def, simp add: word_eval)
  moreover have "ba_data emptyBuffer 4 = 0 \<and> ba_data emptyBuffer 5 = 0"
    by (simp add: emptyBuffer_def)
  ultimately show ?thesis by blast
qed

section \<open>Claims about the device session\<close>

text \<open>
  C2: the claim is that after a short write the session is closed and that on the next
  frame \<open>openDevice\<close> re-opens the device and re-configures the format exactly once,
  with no more than one open and one configure operation. In the scripted run the
  second write is short. The session is closed after it (descriptor \<open>-1\<close>, configured
  flag cleared), and the dead descriptor 4 is not used again; but the next
  \<open>openDevice\<close> for a 4 by 2 frame makes the calls open, close, open, ioctl: two opens
  for one recovery, the first descriptor being closed unused. The sibling path, a
  change of the frame size on the open session after the first frame, makes one open.
\<close>

theorem short_write_recovery_opens_twice:
  "m_fd afterShortWrite = - 1 \<and> \<not> m_deviceConfigured afterShortWrite
   \<and> fst (openDevice secondWriteShort 4 2 afterShortWrite)
   \<and> drop (length (syscalls afterShortWrite))
        (syscalls (snd (openDevice secondWriteShort 4 2 afterShortWrite)))
      = [SysOpen ''/dev/video42'' 5, SysClose 5, SysOpen ''/dev/video42'' 6, SysIoctl 6 4 2 0]
   \<and> count_opens (drop (length (syscalls afterShortWrite))
        (syscalls (snd (openDevice secondWriteShort 4 2 afterShortWrite)))) = 2
   \<and> count_opens (drop (length (syscalls afterShortWrite))
        (syscalls (snd (openDevice secondWriteShort 4 2 afterShortWrite)))) \<noteq> 1
   \<and> count_ioctls (drop (length (syscalls afterShortWrite))
        (syscalls (snd (openDevice secondWriteShort 4 2 afterShortWrite)))) = 1
   \<and> m_fd afterFirstFrame = 4 \<and> m_deviceConfigured afterFirstFrame
   \<and> fst (openDevice secondWriteShort 3 2 afterFirstFrame)
   \<and> drop (length (syscalls afterFirstFrame))
        (syscalls (snd (openDevice secondWriteShort 3 2 afterFirstFrame)))
      = [SysClose 4, SysOpen ''/dev/video42'' 5, SysIoctl 5 3 2 0]
   \<and> count_opens (drop (length (syscalls afterFirstFrame))
        (syscalls (snd (openDevice secondWriteShort 3 2 afterFirstFrame)))) = 1"
  unfolding recovery_eq size_change_eq
  by (simp add: afterShortWrite_eq afterFirstFrame_eq count_opens_def count_ioctls_def)

theorem short_write_recovery_opens_twice_witness:
  "syscalls (snd (openDevice secondWriteShort 4 2 afterShortWrite)) =
     [SysOpen ''/dev/video42'' 3, SysClose 3, SysOpen ''/dev/video42'' 4, SysIoctl 4 4 2 0,
      SysWrite 4 [82, 90, 82, 240,  82, 90, 82, 240,  82, 90, 82, 240,  82, 90, 82, 240] 16,
      SysWrite 4 [82, 90, 82, 240,  82, 90, 82, 240,  82, 90, 82, 240,  82, 90, 82, 240] 5,
      SysClose 4,
      SysOpen ''/dev/video42'' 5, SysClose 5, SysOpen ''/dev/video42'' 6, SysIoctl 6 4 2 0]"
proof -
  have "syscalls (snd (openDevice secondWriteShort 4 2 afterShortWrite))
          = syscalls afterShortWrite @
            drop (length (syscalls afterShortWrite))
              (syscalls (snd (openDevice secondWriteShort 4 2 afterShortWrite)))"
    by (simp add: recovery_eq)
  then show ?thesis
    using short_write_recovery_opens_twice by (simp add: afterShortWrite_eq)
qed

section \<open>Claims about the preview widget\<close>

text \<open>
  C1: let N input frames arrive through \<open>updateVideoFrame\<close>, each followed by any
  number of paint passes with any GL outcomes, and let each frame be fully processed
  before the next arrives (at the end of its block the pending emission has been
  done). Then exactly N \<open>processedFrameReady\<close> events are added, one per frame, in the
  order of arrival and each rendered from its own frame, however many paint passes
  ran in between.
\<close>

theorem one_emission_per_processed_frame:
  assumes "processedEach blocks s"
  shows "map pf_source (processedFrameReady (run (concat (map frameBlock blocks)) s))
           = map pf_source (processedFrameReady s) @ map fst blocks
       \<and> length (processedFrameReady (run (concat (map frameBlock blocks)) s))
           = length (processedFrameReady s) + length blocks"
  using assms
proof (induction blocks arbitrary: s)
  case Nil
  then show ?case by simp
next
  case (Cons blk blocks)
  obtain f ps where blk: "blk = (f, ps)" by (cases blk)
  let ?s1 = "run (frameBlock blk) s"
  have n: "\<not> isNull f" and d: "\<not> m_emitPending ?s1" and rest: "processedEach blocks ?s1"
    using Cons.prems by (simp_all add: blk)
  have e: "processedFrameReady ?s1 = processedFrameReady s @
             [\<lparr>pf_source = f, pf_filter = m_filterType s, pf_strength = m_filterStrength s\<rparr>]"
    using frameBlock_once(1) [OF n, of ps s] d unfolding blk by simp
  show ?case
    using Cons.IH [OF rest] by (simp add: run_append e [unfolded blk] blk)
qed


theorem one_emission_per_processed_frame_witness:
  "processedEach twoFrames newWidget
   \<and> map pf_source (processedFrameReady (run (concat (map frameBlock twoFrames)) newWidget))
       = [solidRed4x2, rgb3x2]
   \<and> length (processedFrameReady (run (concat (map frameBlock twoFrames)) newWidget)) = 2"
proof -
  have h: "processedEach twoFrames newWidget"
    by (simp add: widget_eval)
  have e: "processedFrameReady newWidget = []" "map fst twoFrames = [solidRed4x2, rgb3x2]"
    "length twoFrames = 2"
    by (simp_all add: newWidget_def twoFrames_def)
  show ?thesis
    using h one_emission_per_processed_frame [OF h] unfolding e by simp
qed

text \<open>
  C9: in every state the widget reaches from its constructor, by any events, the
  stored filter strength lies in [0, 1], also right after a further call of
  \<open>setFilterStrength\<close> with any real argument: that call either leaves the stored
  value as it is or stores \<open>qBound(0, v, 1)\<close>, which lies in [0, 1], and no other
  operation writes it.
\<close>

theorem filterStrength_in_unit_interval:
  "0 \<le> m_filterStrength (run es newWidget) \<and> m_filterStrength (run es newWidget) \<le> 1
   \<and> 0 \<le> m_filterStrength (setFilterStrength v (run es newWidget))
   \<and> m_filterStrength (setFilterStrength v (run es newWidget)) \<le> 1
   \<and> (m_filterStrength (setFilterStrength v s) = m_filterStrength s
      \<or> m_filterStrength (setFilterStrength v s) = qBound 0 v 1)
   \<and> 0 \<le> qBound 0 v 1 \<and> qBound 0 v 1 \<le> 1"
proof -
  have i: "0 \<le> m_filterStrength newWidget \<and> m_filterStrength newWidget \<le> 1"
    by (simp add: newWidget_def)
  note r = run_strength_inv [OF i, of es]
  note t = step_strength_inv [OF r, of "SetFilterStrength v"]
  show ?thesis
    using r t setFilterStrength_cases [of v s] qBound_unit [of v] by simp
qed


section \<open>Claims about the shader compositor\<close>

text \<open>
  C7: for the frame size of a render pass (positive: the current image's, or 16 by 9)
  and a positive target size, the scale given to the vertex shader is (1, frameAspect / targetAspect) if frameAspect > targetAspect, and
  (targetAspect / frameAspect, 1) otherwise; for equal aspects it is (1, 1); both
  components are at least 1, so that the vertex shader, which divides by them, maps
  every position of the unit quad to a position inside the unit quad: no part of the
  frame leaves the target. (Real arithmetic.)
\<close>

theorem aspect_fit_scale_keeps_frame_inside:
  assumes "0 < tw" "0 < th"
  shows "(let frameAspect = fst (frameAspectSize s) / snd (frameAspectSize s);
              targetAspect = real_of_int tw / real_of_int th;
              scale = renderScale s (tw, th)
          in scale = (if frameAspect > targetAspect then Vec2 1 (frameAspect / targetAspect)
                      else Vec2 (targetAspect / frameAspect) 1)
           \<and> (frameAspect = targetAspect \<longrightarrow> scale = Vec2 1 1)
           \<and> (\<exists>sx sy. scale = Vec2 sx sy \<and> 1 \<le> sx \<and> 1 \<le> sy
                \<and> (\<forall>px py. \<bar>px\<bar> \<le> 1 \<and> \<bar>py\<bar> \<le> 1 \<longrightarrow>
                      vertexMain (Vec2 sx sy) (Vec2 px py) = Vec2 (px / sx) (py / sy)
                      \<and> \<bar>px / sx\<bar> \<le> 1 \<and> \<bar>py / sy\<bar> \<le> 1)))"
proof -
  obtain fw fh where f: "frameAspectSize s = (fw, fh)"
    by (cases "frameAspectSize s")
  have pos: "0 < fw" "0 < fh"
    using frameAspectSize_pos [of s] by (simp_all add: f)
  show ?thesis
    unfolding Let_def renderScale_def f fst_conv snd_conv
    by (rule aspectFitScale_fits [OF pos assms])
qed

theorem aspect_fit_scale_keeps_frame_inside_witness:
  "(0::int) < 640 \<and> (0::int) < 480 \<and> (0::int) < 4 \<and> (0::int) < 2
   \<and> frameAspectSize (updateVideoFrame (Some solidRed4x2) newWidget) = (4, 2)
   \<and> renderScale (updateVideoFrame (Some solidRed4x2) newWidget) (640, 480) = Vec2 1 (3 / 2)
   \<and> renderScale (updateVideoFrame (Some solidRed4x2) newWidget) (4, 2) = Vec2 1 1"
proof -
  have h: "(0::int) < 640" "(0::int) < 480" "(0::int) < 4" "(0::int) < 2"
    by simp_all
  have f: "frameAspectSize (updateVideoFrame (Some solidRed4x2) newWidget) = (4, 2)"
    by (simp add: frameAspectSize_def updateVideoFrame_def isNull_def solidRed4x2_def)
  show ?thesis
    using aspect_fit_scale_keeps_frame_inside [OF h(1,2),
        of "updateVideoFrame (Some solidRed4x2) newWidget"]
      aspect_fit_scale_keeps_frame_inside [OF h(3,4),
        of "updateVideoFrame (Some solidRed4x2) newWidget"]
    unfolding Let_def f by simp
qed

text \<open>
  C8: for every filter kind, strength and source texel the fragment shader's colour is
  the linear blend \<open>mix(original, clamp(target, 0, 1), clamp(strength, 0, 1))\<close> of
  the specification's table of targets, with the alpha of the source; and for
  strength 0 the result is the source texel itself, whatever the value of the filter
  uniform. (Real arithmetic.)
\<close>

theorem fragment_blend_and_zero_strength:
  "fragmentMain (filterIndex k) strength src = spec_final k strength src
   \<and> alpha (fragmentMain (filterIndex k) strength src) = alpha src
   \<and> fragmentMain u_filter 0 src = src"
proof -
  have "alpha (spec_final k strength src) = alpha src"
    by (cases src) (simp split: vec3.splits)
  then show ?thesis
    by (simp add: fragment_refines fragment_strength_zero)
qed


end
